theory Spec2Isabelle
  imports Complex_Main "HOL-Library.Word"
begin

unbundle bit_operations_syntax

section \<open>Typed arrays and JavaScript numbers\<close>

text \<open>
  A \<^verbatim>\<open>Uint8ClampedArray\<close> is a list of bytes. Reading an index past the end gives
  \<^verbatim>\<open>undefined\<close> (here \<open>None\<close>); writing past the end is ignored; writing
  \<^verbatim>\<open>undefined\<close> stores \<open>0\<close> (it converts to NaN, which the clamped array stores as 0).
  The quotients \<^verbatim>\<open>array.length / 4\<close> and \<^verbatim>\<open>array.length / 3\<close> are JavaScript numbers
  and need not be integers; they are modelled as rationals. For every length a typed
  array can have, the double the engine computes compares with an integer, and truncates,
  as the exact quotient does.
\<close>

type_synonym byte = "8 word"

definition aget :: "byte list \<Rightarrow> nat \<Rightarrow> byte option" where
  "aget a i = (if i < length a then Some (a ! i) else None)"

definition aset :: "byte list \<Rightarrow> nat \<Rightarrow> byte option \<Rightarrow> byte list" where
  "aset a i v = (if i < length a then a[i := (case v of None \<Rightarrow> 0 | Some b \<Rightarrow> b)] else a)"

text \<open>\<^verbatim>\<open>new Uint8ClampedArray(n)\<close>: the length is \<open>n\<close> truncated, the bytes are zero.\<close>

definition new_array :: "rat \<Rightarrow> byte list" where
  "new_array n = replicate (nat \<lfloor>n\<rfloor>) 0"

section \<open>Pixel packing (util.js)\<close>

function toRGB_loop :: "byte list \<Rightarrow> rat \<Rightarrow> nat \<Rightarrow> byte list \<Rightarrow> byte list" where
  "toRGB_loop array pixels i result =
     (if of_nat i < pixels then
        toRGB_loop array pixels (i + 1)
          (aset (aset (aset result (i * 3) (aget array (i * 4)))
                   (i * 3 + 1) (aget array (i * 4 + 1)))
             (i * 3 + 2) (aget array (i * 4 + 2)))
      else result)"
  by pat_completeness auto
termination
  by (relation "measure (\<lambda>(array, pixels, i, result). nat \<lceil>pixels\<rceil> - i)")
     (auto simp: zless_nat_eq_int_zless less_ceiling_iff intro!: diff_less_mono2)

declare toRGB_loop.simps [simp del]

definition toRGB :: "byte list \<Rightarrow> byte list" where
  "toRGB array =
     (let pixels = of_nat (length array) / 4;
          result = new_array (pixels * 3)
      in toRGB_loop array pixels 0 result)"

function toRGBA_loop :: "byte list \<Rightarrow> rat \<Rightarrow> nat \<Rightarrow> byte list \<Rightarrow> byte list" where
  "toRGBA_loop array pixels i result =
     (if of_nat i < pixels then
        toRGBA_loop array pixels (i + 1)
          (aset (aset (aset (aset result (i * 4) (aget array (i * 3)))
                         (i * 4 + 1) (aget array (i * 3 + 1)))
                   (i * 4 + 2) (aget array (i * 3 + 2)))
             (i * 4 + 3) (Some 255))
      else result)"
  by pat_completeness auto
termination
  by (relation "measure (\<lambda>(array, pixels, i, result). nat \<lceil>pixels\<rceil> - i)")
     (auto simp: zless_nat_eq_int_zless less_ceiling_iff intro!: diff_less_mono2)

declare toRGBA_loop.simps [simp del]

definition toRGBA :: "byte list \<Rightarrow> byte list" where
  "toRGBA array =
     (let pixels = of_nat (length array) / 3;
          result = new_array (pixels * 4)
      in toRGBA_loop array pixels 0 result)"

text \<open>
  What the specification says the two conversions compute, on whole pixels:
  \<open>drop_every_4th\<close> drops every 4th byte, \<open>insert_alpha\<close> inserts 255 after every
  3 bytes. An incomplete trailing group is left out by both. \<open>rgb_tail\<close> and
  \<open>rgba_tail\<close> name what the code copies from such a trailing group.
\<close>

fun drop_every_4th :: "byte list \<Rightarrow> byte list" where
  "drop_every_4th (r # g # b # a # rest) = r # g # b # drop_every_4th rest"
| "drop_every_4th rest = []"

fun insert_alpha :: "byte list \<Rightarrow> byte list" where
  "insert_alpha (r # g # b # rest) = r # g # b # 255 # insert_alpha rest"
| "insert_alpha rest = []"

definition rgb_tail :: "byte list \<Rightarrow> byte list" where
  "rgb_tail xs = butlast (drop (4 * (length xs div 4)) xs)"

definition rgba_tail :: "byte list \<Rightarrow> byte list" where
  "rgba_tail xs = drop (3 * (length xs div 3)) xs"

text \<open>The byte that \<open>toRGBA\<close> leaves at index \<open>j\<close> of its result.\<close>

definition rgba_at :: "byte list \<Rightarrow> nat \<Rightarrow> byte" where
  "rgba_at array j = (if j mod 4 = 3 then 255 else array ! (3 * (j div 4) + j mod 4))"

section \<open>Format constants (config.js)\<close>

definition SMZZL_VERSION :: "byte list" where "SMZZL_VERSION = [0x03]"
definition SMZZL_IDENTIFIER :: "byte list" where "SMZZL_IDENTIFIER = [0x53, 0x4d, 0x5a, 0x5a, 0x4c]"
definition HEADERHEIGHT_INDEX :: nat where "HEADERHEIGHT_INDEX = 80"
definition FOOTERHEIGHT_INDEX :: nat where "FOOTERHEIGHT_INDEX = 84"
definition HEADER_MINIMUM_LENGTH :: nat where "HEADER_MINIMUM_LENGTH = 92"
definition FLAG_LENGTH :: nat where "FLAG_LENGTH = 2"
definition NUMBER_LENGTH :: nat where "NUMBER_LENGTH = 4"
definition IV_LENGTH :: nat where "IV_LENGTH = 16"
definition TAG_LENGTH :: nat where "TAG_LENGTH = 16"
definition KEY_LENGTH :: nat where "KEY_LENGTH = 32"

section \<open>Exceptions, typed-array methods and the random source\<close>

datatype exn = ReferenceError | TypeError | RangeError | QuotaExceededError

text \<open>
  \<^verbatim>\<open>target.set(source, offset)\<close> throws a RangeError when the source does not fit, and
  otherwise overwrites \<open>length source\<close> bytes from \<open>offset\<close> on.
\<close>

definition ta_set :: "byte list \<Rightarrow> byte list \<Rightarrow> nat \<Rightarrow> exn + byte list" where
  "ta_set target source offset =
     (if length target < offset + length source then Inl RangeError
      else Inr (take offset target @ source @ drop (offset + length source) target))"

text \<open>
  \<^verbatim>\<open>array.subarray(begin, end)\<close>: a negative index counts from the end, and both indices
  are clamped to the array. \<^verbatim>\<open>subarray(begin)\<close> runs to the end of the array.
\<close>

definition rel_index :: "nat \<Rightarrow> int \<Rightarrow> nat" where
  "rel_index len k = (if k < 0 then nat (max 0 (int len + k)) else min (nat k) len)"

definition subarray :: "byte list \<Rightarrow> int \<Rightarrow> int \<Rightarrow> byte list" where
  "subarray a lo hi =
     (let b = rel_index (length a) lo; e = rel_index (length a) hi
      in take (e - b) (drop b a))"

definition subarray_from :: "byte list \<Rightarrow> int \<Rightarrow> byte list" where
  "subarray_from a lo = drop (rel_index (length a) lo) a"

text \<open>
  \<^verbatim>\<open>window.crypto\<close>: an endless supply of random bytes, and the sizes of request that
  \<^verbatim>\<open>getRandomValues\<close> refuses by throwing (a browser refuses more than 65536 bytes in
  one call). A served request fills the whole array and moves the supply on.
\<close>

record rng =
  source :: "nat \<Rightarrow> byte"
  refuses :: "nat \<Rightarrow> bool"

definition getRandomValues :: "nat \<Rightarrow> rng \<Rightarrow> exn + (byte list \<times> rng)" where
  "getRandomValues n g =
     (if refuses g n then Inl QuotaExceededError
      else Inr (map (source g) [0..<n], g\<lparr>source := (\<lambda>i. source g (i + n))\<rparr>))"

text \<open>A random source with a browser's limit of 65536 bytes for one request.\<close>

definition browser_rng :: "(nat \<Rightarrow> byte) \<Rightarrow> rng" where
  "browser_rng src = \<lparr>source = src, refuses = (\<lambda>n. 65536 < n)\<rparr>"

section \<open>Header codec (header.js)\<close>

text \<open>
  \<^verbatim>\<open>encodeUint(num)\<close>: the shifts convert \<open>num\<close> to a signed 32-bit integer first and
  shift arithmetically; the mask keeps the low byte.
\<close>

definition encodeUint :: "nat \<Rightarrow> byte list" where
  "encodeUint num =
     (let n = (word_of_nat num :: 32 word)
      in [ucast (signed_drop_bit 24 n AND 255),
          ucast (signed_drop_bit 16 n AND 255),
          ucast (signed_drop_bit 8 n AND 255),
          ucast (n AND 255)])"

text \<open>
  A JavaScript number that is a natural number or NaN (\<open>None\<close>). \<^verbatim>\<open>decodeUint\<close>
  multiplies and adds array elements; an element read past the end is \<^verbatim>\<open>undefined\<close>
  and makes the sum NaN.
\<close>

type_synonym jsnum = "nat option"

definition decodeUint :: "byte list \<Rightarrow> jsnum" where
  "decodeUint array =
     (case (aget array 0, aget array 1, aget array 2, aget array 3) of
        (Some b0, Some b1, Some b2, Some b3) \<Rightarrow>
          Some (unat b0 * 0x01000000 + unat b1 * 0x00010000 + unat b2 * 0x00000100 + unat b3)
      | _ \<Rightarrow> None)"

text \<open>The closure \<^verbatim>\<open>setForward\<close> of \<^verbatim>\<open>encodeHeader\<close>, on the pair of \<^verbatim>\<open>metaData\<close> and \<^verbatim>\<open>offset\<close>.\<close>

definition setForward :: "byte list \<times> nat \<Rightarrow> byte list \<Rightarrow> exn + (byte list \<times> nat)" where
  "setForward st d =
     (case ta_set (fst st) d (snd st) of
        Inl e \<Rightarrow> Inl e
      | Inr metaData \<Rightarrow> Inr (metaData, snd st + length d))"

text \<open>Consecutive \<^verbatim>\<open>setForward\<close> calls; the first that throws ends the sequence.\<close>

fun setForward_all :: "byte list \<times> nat \<Rightarrow> byte list list \<Rightarrow> exn + (byte list \<times> nat)" where
  "setForward_all st [] = Inr st"
| "setForward_all st (d # ds) =
     (case setForward st d of Inl e \<Rightarrow> Inl e | Inr st' \<Rightarrow> setForward_all st' ds)"

text \<open>
  \<^verbatim>\<open>encodeHeader\<close>. The decoy key is drawn after \<^verbatim>\<open>tag\<close> is written and before the key
  slot is. For \<open>w = 0\<close> the quotient \<^verbatim>\<open>92 / 0\<close> is Infinity, \<^verbatim>\<open>Infinity * 0\<close> is NaN, the
  array of NaN bytes is empty and \<^verbatim>\<open>headerData.set(metaData, 0)\<close> throws a RangeError.
  For \<open>w > 0\<close> the quotient \<^verbatim>\<open>92 / (3 * w)\<close> is never a whole number (3 does not divide
  92), so \<^verbatim>\<open>Math.ceil\<close> of the double is the ceiling of the exact quotient.
  The result is \<^verbatim>\<open>headerData\<close>, \<^verbatim>\<open>headerHeight\<close> and the random source after the call.
  \<^verbatim>\<open>getRandomValues\<close> is asked for all \<open>headerHeight * 3 * w\<close> bytes of the header rows in
  one request. (An array too long to be allocated throws a RangeError before the
  request is made; the model has no such limit and lets the random source refuse.)
\<close>

definition encodeHeader ::
  "nat \<Rightarrow> nat \<Rightarrow> byte list \<Rightarrow> byte list \<Rightarrow> bool \<Rightarrow> byte list \<Rightarrow> rng
     \<Rightarrow> exn + ((byte list \<times> nat) \<times> rng)" where
  "encodeHeader w h iv tag usePassword keyBytes g =
     (let metaDataLength = HEADER_MINIMUM_LENGTH;
          metaData = replicate metaDataLength (0 :: byte);
          flag = (if usePassword then 0x8000 else 0x0000 :: 32 word);
          flagArray = [ucast (signed_drop_bit 8 flag), ucast (flag AND 255)]
      in case setForward_all (metaData, 0)
                [SMZZL_IDENTIFIER, SMZZL_VERSION, flagArray, encodeUint w, encodeUint h, iv, tag] of
           Inl e \<Rightarrow> Inl e
         | Inr st1 \<Rightarrow>
        (case (if usePassword then getRandomValues KEY_LENGTH g else Inr (keyBytes, g)) of
           Inl e \<Rightarrow> Inl e
         | Inr (keyBytes', g1) \<Rightarrow>
        (let areaDataLength = 0;
             areaData = []
         in case setForward_all st1
                   [keyBytes', replicate NUMBER_LENGTH 0, replicate NUMBER_LENGTH 0,
                    encodeUint areaDataLength] of
              Inl e \<Rightarrow> Inl e
            | Inr st2 \<Rightarrow>
           (let rowDataLength = 3 * w
            in if rowDataLength = 0 then Inl RangeError
               else
                 (let headerHeight =
                        nat \<lceil>(of_nat (metaDataLength + areaDataLength) :: rat) / of_nat rowDataLength\<rceil>
                  in case ta_set (fst st2) (encodeUint headerHeight) HEADERHEIGHT_INDEX of
                       Inl e \<Rightarrow> Inl e
                     | Inr metaData' \<Rightarrow>
                    (let headerDataLength = headerHeight * rowDataLength
                     in case getRandomValues headerDataLength g1 of
                          Inl e \<Rightarrow> Inl e
                        | Inr (headerData0, g2) \<Rightarrow>
                       (case ta_set headerData0 metaData' 0 of
                          Inl e \<Rightarrow> Inl e
                        | Inr headerData1 \<Rightarrow>
                       (case ta_set headerData1 areaData metaDataLength of
                          Inl e \<Rightarrow> Inl e
                        | Inr headerData \<Rightarrow> Inr ((headerData, headerHeight), g2)))))))))"

record header =
  signiture :: "byte list"
  version :: byte
  usePassword :: bool
  w :: jsnum
  h :: jsnum
  iv :: "byte list"
  tag :: "byte list"
  keyBytes :: "byte list"
  headerHeight :: jsnum
  footerHeight :: jsnum
  areaDataLength :: jsnum

text \<open>
  The closure \<^verbatim>\<open>readForward\<close> of \<^verbatim>\<open>decodeHeader\<close>: the bytes read and the new offset.
  \<^verbatim>\<open>subarray\<close> clamps to the buffer and does not throw.
\<close>

definition readForward :: "byte list \<Rightarrow> nat \<Rightarrow> nat \<Rightarrow> byte list \<times> nat" where
  "readForward imageData offset len =
     (subarray imageData (int offset) (int (offset + len)), offset + len)"

text \<open>
  \<^verbatim>\<open>decodeHeader\<close>. No statement of its \<^verbatim>\<open>try\<close> block throws, so the only \<^verbatim>\<open>null\<close> is the
  version check. \<^verbatim>\<open>(flagArray[0] & 0x80) && true\<close> is \<^verbatim>\<open>true\<close> or \<^verbatim>\<open>0\<close>; the field holds
  whether it is truthy.
\<close>

definition decodeHeader :: "byte list \<Rightarrow> header option" where
  "decodeHeader imageData =
     (let (sig, o1) = readForward imageData 0 (length SMZZL_IDENTIFIER);
          (ver, o2) = readForward imageData o1 (length SMZZL_VERSION)
      in if aget ver 0 \<noteq> aget SMZZL_VERSION 0 then None
         else
           (let (flagArray, o3) = readForward imageData o2 FLAG_LENGTH;
                (wBytes, o4) = readForward imageData o3 NUMBER_LENGTH;
                (hBytes, o5) = readForward imageData o4 NUMBER_LENGTH;
                (ivBytes, o6) = readForward imageData o5 IV_LENGTH;
                (tagBytes, o7) = readForward imageData o6 TAG_LENGTH;
                (key, o8) = readForward imageData o7 KEY_LENGTH;
                (hhBytes, o9) = readForward imageData o8 NUMBER_LENGTH;
                (fhBytes, o10) = readForward imageData o9 NUMBER_LENGTH;
                (adBytes, o11) = readForward imageData o10 NUMBER_LENGTH
            in Some \<lparr>signiture = sig,
                     version = ver ! 0,
                     usePassword = (case aget flagArray 0 of None \<Rightarrow> False
                                    | Some b \<Rightarrow> b AND 0x80 \<noteq> 0),
                     w = decodeUint wBytes,
                     h = decodeUint hBytes,
                     iv = ivBytes,
                     tag = tagBytes,
                     keyBytes = key,
                     headerHeight = decodeUint hhBytes,
                     footerHeight = decodeUint fhBytes,
                     areaDataLength = decodeUint adBytes\<rparr>))"

definition verifyIdentifier :: "byte list \<Rightarrow> bool" where
  "verifyIdentifier d =
     list_all (\<lambda>i. aget d i = aget SMZZL_IDENTIFIER i) [0..<length SMZZL_IDENTIFIER]"

text \<open>
  The 92-byte header block of the specification's layout table: identifier, version,
  flags, width, height, nonce, tag, key bytes, header height and the two reserved
  numbers, which are zero.
\<close>

definition header_block ::
  "bool \<Rightarrow> nat \<Rightarrow> nat \<Rightarrow> byte list \<Rightarrow> byte list \<Rightarrow> byte list \<Rightarrow> nat \<Rightarrow> byte list" where
  "header_block usePw wd ht nonce tg key hh =
     SMZZL_IDENTIFIER @ SMZZL_VERSION @ [if usePw then 0x80 else 0, 0] @
     encodeUint wd @ encodeUint ht @ nonce @ tg @ key @
     encodeUint hh @ [0, 0, 0, 0] @ [0, 0, 0, 0]"


section \<open>Errors and results (error.js)\<close>

datatype error = ImageTypeError | DecodingError string | EncodingError string | CryptoError string

text \<open>
  The object \<^verbatim>\<open>{ output, error }\<close> that \<^verbatim>\<open>encrypt\<close> and \<^verbatim>\<open>decrypt\<close> resolve to
  (\<open>None\<close> is \<^verbatim>\<open>null\<close>), and the two ways a call can end: it returns such an object, or
  an exception leaves the function (the promise rejects).
\<close>

record 'b result =
  "output" :: "'b option"
  error :: "error option"

datatype 'b outcome = Returned "'b result" | Threw exn

definition failure :: "error \<Rightarrow> 'b outcome" where
  "failure e = Returned \<lparr>output = None, error = Some e\<rparr>"

definition success :: "'b \<Rightarrow> 'b outcome" where
  "success blob = Returned \<lparr>output = Some blob, error = None\<rparr>"

section \<open>Collaborators\<close>

text \<open>
  The PNG codec works on a picture: its size, bit depth, colour type and samples (plain
  numbers). The encoder is always called with compression, interlace and filter 0.
\<close>

datatype color_type = GRAYSCALE | TRUE_COLOR | PALETTE | GRAYSCALE_WITH_ALPHA | TRUE_COLOR_WITH_ALPHA

record png =
  width :: jsnum
  height :: jsnum
  depth :: nat
  colorType :: color_type
  data :: "nat list"

text \<open>
  What the pipeline calls and does not define: loading a file into an image element and
  reading its pixels from a canvas (\<open>None\<close>: the element's \<^verbatim>\<open>onerror\<close> fired), the PNG codec,
  \<^verbatim>\<open>TextEncoder\<close>, and \<^verbatim>\<open>crypto.subtle\<close>'s digest, key import and AES-GCM. \<open>'b\<close> is a
  \<^verbatim>\<open>Blob\<close>, \<open>'k\<close> a \<^verbatim>\<open>CryptoKey\<close>; \<open>None\<close> is a thrown exception or a rejected promise.
  The AEAD functions take key, nonce, tag length in bits and the input.
\<close>

record ('b, 'k) collab =
  loadImage :: "'b \<Rightarrow> (nat \<times> nat \<times> byte list) option"
  png_decode :: "'b \<Rightarrow> png option"
  png_encode :: "png \<Rightarrow> 'b option"
  textEncode :: "string \<Rightarrow> byte list"
  digest :: "byte list \<Rightarrow> byte list option"
  importKey :: "byte list \<Rightarrow> 'k option"
  aead_encrypt :: "'k \<Rightarrow> byte list \<Rightarrow> nat \<Rightarrow> byte list \<Rightarrow> byte list option"
  aead_decrypt :: "'k \<Rightarrow> byte list \<Rightarrow> nat \<Rightarrow> byte list \<Rightarrow> byte list option"

text \<open>
  The values a caller can pass as \<^verbatim>\<open>image\<close>: \<^verbatim>\<open>null\<close> or \<^verbatim>\<open>undefined\<close>, an image element
  (with its width, its height and the RGBA bytes the canvas reads from it), a \<^verbatim>\<open>File\<close> or
  \<^verbatim>\<open>Blob\<close>, or anything else (a number, a string, a plain object). As \<^verbatim>\<open>pw\<close>: a string
  (\<^verbatim>\<open>undefined\<close> becomes the default \<^verbatim>\<open>''\<close>) or a value that is not a string.
\<close>

datatype 'b js_value = Nullish | ImageElement nat nat "byte list" | FileOrBlob 'b | OtherValue

datatype js_pw = PwString string | PwOther

section \<open>Image loading (util.js)\<close>

text \<open>
  \<^verbatim>\<open>getImageDataCanvas\<close>. util.js imports neither \<^verbatim>\<open>DecodingError\<close> nor \<^verbatim>\<open>ImageTypeError\<close>,
  so each of its two error returns throws a ReferenceError while it builds the object.
\<close>

definition getImageDataCanvas ::
  "('b, 'k) collab \<Rightarrow> 'b js_value \<Rightarrow> exn + (nat \<times> nat \<times> byte list)" where
  "getImageDataCanvas c img =
     (case img of
        FileOrBlob b \<Rightarrow> (case loadImage c b of None \<Rightarrow> Inl ReferenceError | Some px \<Rightarrow> Inr px)
      | ImageElement wd ht px \<Rightarrow> Inr (wd, ht, px)
      | Nullish \<Rightarrow> Inl ReferenceError
      | OtherValue \<Rightarrow> Inl ReferenceError)"

text \<open>\<^verbatim>\<open>new Uint8ClampedArray(meta.data)\<close> clamps every sample to a byte.\<close>

definition clamp8 :: "nat \<Rightarrow> byte" where
  "clamp8 v = of_nat (min v 255)"

text \<open>\<^verbatim>\<open>getImageDataPNG\<close>: colour type, width, height and RGB bytes, or \<^verbatim>\<open>null\<close>.\<close>

definition getImageDataPNG ::
  "('b, 'k) collab \<Rightarrow> 'b \<Rightarrow> (color_type \<times> jsnum \<times> jsnum \<times> byte list) option" where
  "getImageDataPNG c b =
     (case png_decode c b of
        None \<Rightarrow> None
      | Some meta \<Rightarrow>
          (let d = map clamp8 (data meta)
           in if colorType meta = TRUE_COLOR_WITH_ALPHA
              then Some (colorType meta, width meta, height meta, toRGB d)
              else if colorType meta \<noteq> TRUE_COLOR then None
              else Some (colorType meta, width meta, height meta, d)))"

section \<open>Encryption and decryption (crypto.js)\<close>

definition splitCiphertext :: "byte list \<Rightarrow> nat \<Rightarrow> byte list \<times> byte list" where
  "splitCiphertext ciphertext tagLength =
     (let index = int (length ciphertext) - int tagLength;
          encrypted = subarray ciphertext 0 index;
          tg = subarray_from ciphertext index
      in (tg, encrypted))"

definition getHash :: "('b, 'k) collab \<Rightarrow> string \<Rightarrow> nat \<Rightarrow> byte list option" where
  "getHash c input len =
     (case digest c (textEncode c input) of
        None \<Rightarrow> None
      | Some hashBuffer \<Rightarrow> Some (subarray hashBuffer 0 (int len)))"

text \<open>\<^verbatim>\<open>typeof pw === 'string' && pw !== ''\<close>\<close>

definition nonempty_string :: "js_pw \<Rightarrow> bool" where
  "nonempty_string pw = (case pw of PwString s \<Rightarrow> s \<noteq> [] | PwOther \<Rightarrow> False)"

definition pw_string :: "js_pw \<Rightarrow> string" where
  "pw_string pw = (case pw of PwString s \<Rightarrow> s | PwOther \<Rightarrow> [])"

text \<open>
  Step (3) of \<^verbatim>\<open>encrypt\<close> up to the key: the key bytes and the random source after
  drawing them, or the way the call ends. The random key is drawn outside any \<^verbatim>\<open>try\<close>.
\<close>

definition encryptKey ::
  "('b, 'k) collab \<Rightarrow> js_pw \<Rightarrow> rng \<Rightarrow> 'b outcome + (byte list \<times> rng)" where
  "encryptKey c pw g =
     (if nonempty_string pw then
        (case getHash c (pw_string pw) KEY_LENGTH of
           None \<Rightarrow> Inl (failure (CryptoError ''hash''))
         | Some k \<Rightarrow> Inr (k, g))
      else
        (case getRandomValues KEY_LENGTH g of
           Inl e \<Rightarrow> Inl (Threw e)
         | Inr (k, g1) \<Rightarrow> Inr (k, g1)))"

text \<open>The \<^verbatim>\<open>try\<close> block of step (3): key import, nonce, AES-GCM. Any throw is caught.\<close>

definition encryptData ::
  "('b, 'k) collab \<Rightarrow> byte list \<Rightarrow> byte list \<Rightarrow> rng \<Rightarrow> (byte list \<times> byte list \<times> rng) option" where
  "encryptData c kb imageDataRGB g =
     (case importKey c kb of
        None \<Rightarrow> None
      | Some key \<Rightarrow>
     (case getRandomValues IV_LENGTH g of
        Inl e \<Rightarrow> None
      | Inr (nonce, g1) \<Rightarrow>
     (case aead_encrypt c key nonce (TAG_LENGTH * 8) imageDataRGB of
        None \<Rightarrow> None
      | Some ciphertext \<Rightarrow> Some (nonce, ciphertext, g1))))"

definition encrypt :: "('b, 'k) collab \<Rightarrow> 'b js_value \<Rightarrow> js_pw \<Rightarrow> rng \<Rightarrow> 'b outcome" where
  "encrypt c img pw g =
     (case getImageDataCanvas c img of
        Inl e \<Rightarrow> Threw e
      | Inr (wd, ht, imageData) \<Rightarrow>
     (let imageDataRGB = toRGB imageData
      in case encryptKey c pw g of
           Inl ended \<Rightarrow> ended
         | Inr (kb, g1) \<Rightarrow>
        (case encryptData c kb imageDataRGB g1 of
           None \<Rightarrow> failure (CryptoError ''encrypt'')
         | Some (nonce, ciphertext, g2) \<Rightarrow>
        (let (tg, encrypted) = splitCiphertext ciphertext TAG_LENGTH
         in case encodeHeader wd ht nonce tg (nonempty_string pw) kb g2 of
              Inl e \<Rightarrow> Threw e
            | Inr ((headerData, hh), g3) \<Rightarrow>
           (let outputDataRGB = headerData @ encrypted;
                outputDataRGBA = toRGBA outputDataRGB;
                outputHeight = ht + hh
            in case png_encode c \<lparr>width = Some wd, height = Some outputHeight, depth = 8,
                                   colorType = TRUE_COLOR_WITH_ALPHA,
                                   data = map unat outputDataRGBA\<rparr> of
                 None \<Rightarrow> failure (EncodingError ''png'')
               | Some blob \<Rightarrow> success blob)))))"

text \<open>
  Step (4) of \<^verbatim>\<open>decrypt\<close>, the key: the stored key bytes, or in password mode the hash
  of the password.
\<close>

definition decryptKey ::
  "('b, 'k) collab \<Rightarrow> header \<Rightarrow> js_pw \<Rightarrow> 'b outcome + byte list" where
  "decryptKey c hdr pw =
     (if usePassword hdr then
        (if \<not> nonempty_string pw then Inl (failure (CryptoError ''no password''))
         else (case getHash c (pw_string pw) KEY_LENGTH of
                 None \<Rightarrow> Inl (failure (CryptoError ''hash''))
               | Some k \<Rightarrow> Inr k))
      else Inr (keyBytes hdr))"

text \<open>
  The last \<^verbatim>\<open>try\<close> block of step (4), up to the AES-GCM call: the ciphertext after the
  header rows with the stored tag appended. \<^verbatim>\<open>headerLength\<close> is NaN when the header
  was read from too short a buffer; an array of NaN bytes is empty and \<^verbatim>\<open>subarray(NaN)\<close>
  starts at 0. A negative array length throws. The model multiplies exactly where
  JavaScript rounds a product above \<open>2 ^ 53\<close>; such a product exceeds every buffer length
  either way.
\<close>

definition decryptInput :: "byte list \<Rightarrow> header \<Rightarrow> exn + byte list" where
  "decryptInput imageDataRGB hdr =
     (let headerLength = (case (headerHeight hdr, w hdr) of
                            (Some hh, Some wd) \<Rightarrow> Some (hh * 3 * wd)
                          | _ \<Rightarrow> None);
          dataLength = (case headerLength of
                          Some hl \<Rightarrow> Some (int (length imageDataRGB) - int hl + int TAG_LENGTH)
                        | None \<Rightarrow> None)
      in case (case dataLength of
                 None \<Rightarrow> Inr []
               | Some dl \<Rightarrow> if dl < 0 then Inl RangeError else Inr (replicate (nat dl) 0)) of
           Inl e \<Rightarrow> Inl e
         | Inr data0 \<Rightarrow>
        (let encrypted = subarray_from imageDataRGB
                           (case headerLength of Some hl \<Rightarrow> int hl | None \<Rightarrow> 0)
         in case ta_set data0 encrypted 0 of
              Inl e \<Rightarrow> Inl e
            | Inr data1 \<Rightarrow> ta_set data1 (tag hdr) (length encrypted)))"

definition decrypt :: "('b, 'k) collab \<Rightarrow> 'b js_value \<Rightarrow> js_pw \<Rightarrow> 'b outcome" where
  "decrypt c img pw =
     (case img of
        Nullish \<Rightarrow> Threw TypeError
      | ImageElement wd ht px \<Rightarrow> failure ImageTypeError
      | OtherValue \<Rightarrow> failure ImageTypeError
      | FileOrBlob b \<Rightarrow>
     (case getImageDataPNG c b of
        None \<Rightarrow> failure (DecodingError ''PNG decoding failed'')
      | Some (ct, pw_w, pw_h, imageDataRGB) \<Rightarrow>
     (if \<not> verifyIdentifier imageDataRGB then failure (DecodingError ''signiture not found'')
      else case decodeHeader imageDataRGB of
             None \<Rightarrow> failure (DecodingError ''invalid header'')
           | Some hdr \<Rightarrow>
        (case decryptKey c hdr pw of
           Inl ended \<Rightarrow> ended
         | Inr kb \<Rightarrow>
        (case importKey c kb of
           None \<Rightarrow> failure (CryptoError ''import key'')
         | Some key \<Rightarrow>
        (case (case decryptInput imageDataRGB hdr of
                 Inl e \<Rightarrow> None
               | Inr input \<Rightarrow> aead_decrypt c key (iv hdr) (TAG_LENGTH * 8) input) of
           None \<Rightarrow> failure (CryptoError ''decrypt'')
         | Some plaintext \<Rightarrow>
        (let outputDataRGB = plaintext;
             outputDataRGBA = toRGBA outputDataRGB
         in case png_encode c \<lparr>width = w hdr, height = h hdr, depth = 8,
                                colorType = TRUE_COLOR_WITH_ALPHA,
                                data = map unat outputDataRGBA\<rparr> of
              None \<Rightarrow> failure (EncodingError ''png'')
            | Some blob \<Rightarrow> success blob)))))))"

text \<open>The call returned no output and an error of kind \<^verbatim>\<open>CryptoError\<close>.\<close>

fun crypto_failure :: "'b outcome \<Rightarrow> bool" where
  "crypto_failure (Returned r) =
     (output r = None \<and> (case error r of Some (CryptoError reason) \<Rightarrow> True | _ \<Rightarrow> False))"
| "crypto_failure (Threw e) = False"

section \<open>Example collaborators\<close>

text \<open>
  A small instance of the collaborators: a PNG codec that keeps the picture as it is,
  a digest that depends on the length of its input only, and an AEAD that has encrypted
  exactly one plaintext under one key and accepts exactly that ciphertext. A
  \<^verbatim>\<open>CryptoKey\<close> is its raw bytes.
\<close>

definition example_key :: "byte list" where
  "example_key = replicate 32 9"

definition example_ciphertext :: "byte list" where
  "example_ciphertext = [3, 2, 1] @ replicate 16 7"

definition example_collab :: "(png, byte list) collab" where
  "example_collab =
     \<lparr>loadImage = (\<lambda>b. None),
      png_decode = Some,
      png_encode = Some,
      textEncode = map (\<lambda>ch. of_nat (of_char ch)),
      digest = (\<lambda>bs. Some (replicate 32 (of_nat (length bs) + 8))),
      importKey = Some,
      aead_encrypt = (\<lambda>k n t p. if k = example_key \<and> p = [1, 2, 3]
                                then Some example_ciphertext else None),
      aead_decrypt = (\<lambda>k n t x. if k = example_key \<and> x = example_ciphertext
                                then Some [1, 2, 3] else None)\<rparr>"


definition example_rng :: rng where
  "example_rng = browser_rng (\<lambda>i. 9)"

text \<open>
  A second instance, whose collaborators never fail on the pipeline's inputs: the digest
  is the first 32 bytes of its zero-padded input, every 32-byte key is imported, and
  the AEAD adds 1 to every byte and appends a 16-byte tag made of the key and the nonce;
  its decryption checks the tag and subtracts 1.
\<close>

definition sample_tag :: "byte list \<Rightarrow> byte list \<Rightarrow> byte list" where
  "sample_tag k n = map (\<lambda>i. (k @ replicate 16 0) ! i + (n @ replicate 16 0) ! i) [0..<16]"

definition sample_collab :: "(png, byte list) collab" where
  "sample_collab =
     \<lparr>loadImage = (\<lambda>b. None),
      png_decode = Some,
      png_encode = Some,
      textEncode = map (\<lambda>ch. of_nat (of_char ch)),
      digest = (\<lambda>bs. Some (take 32 (bs @ replicate 32 0))),
      importKey = (\<lambda>kb. if length kb = 32 then Some kb else None),
      aead_encrypt = (\<lambda>k n t p. Some (map (\<lambda>b. b + 1) p @ sample_tag k n)),
      aead_decrypt = (\<lambda>k n t x. if 16 \<le> length x \<and> drop (length x - 16) x = sample_tag k n
                                then Some (map (\<lambda>b. b - 1) (take (length x - 16) x)) else None)\<rparr>"

section \<open>Pixel packing: what the loops compute\<close>

lemma lt_quarter: "(of_nat i < (of_nat n / 4 :: rat)) = (4 * i < n)"
proof -
  have "(of_nat i < (of_nat n / 4 :: rat)) = (of_nat (4 * i) < (of_nat n :: rat))"
    by (simp add: pos_less_divide_eq mult.commute)
  then show ?thesis by (simp only: of_nat_less_iff)
qed

lemma floor_three_quarters: "nat \<lfloor>(of_nat n / 4 :: rat) * 3\<rfloor> = 3 * n div 4"
proof -
  have "(of_nat n / 4 :: rat) * 3 = of_int (int (3 * n)) / of_int 4" by simp
  then have "\<lfloor>(of_nat n / 4 :: rat) * 3\<rfloor> = int (3 * n) div 4"
    by (simp only: floor_divide_of_int_eq)
  then show ?thesis by (simp add: nat_div_distrib)
qed

lemma length_aset [simp]: "length (aset a i v) = length a"
  by (simp add: aset_def)

lemma nth_aset: "j < length a \<Longrightarrow> aset a i v ! j = (if j = i then (case v of None \<Rightarrow> 0 | Some b \<Rightarrow> b) else a ! j)"
  by (simp add: aset_def)

lemma idx3: "k < 3 \<Longrightarrow> (3 * i + k) div 3 = i \<and> (3 * i + k) mod 3 = k" for i k :: nat
  by simp

lemma fits4: "3 * i + k < 3 * n div 4 \<Longrightarrow> 4 * i + k < n" for i k n :: nat
  by arith

lemma toRGB_loop_inv:
  assumes "pixels = of_nat (length array) / 4"
    and "length result = 3 * length array div 4"
    and "\<forall>j. j < 3 * i \<longrightarrow> j < length result \<longrightarrow> result ! j = array ! (4 * (j div 3) + j mod 3)"
  shows "length (toRGB_loop array pixels i result) = length result \<and>
         (\<forall>j < length result. toRGB_loop array pixels i result ! j = array ! (4 * (j div 3) + j mod 3))"
  using assms
proof (induction array pixels i result rule: toRGB_loop.induct)
  case (1 array pixels i result)
  let ?L = "length result"
  show ?case
  proof (cases "of_nat i < pixels")
    case False
    with "1.prems"(1) have "length array \<le> 4 * i" by (simp add: lt_quarter)
    with "1.prems"(2) have "?L \<le> 3 * i" by simp
    with "1.prems"(3) have "\<forall>j < ?L. result ! j = array ! (4 * (j div 3) + j mod 3)" by simp
    with False show ?thesis
      by (simp add: toRGB_loop.simps [of array pixels i result])
  next
    case True
    define r where "r = aset (aset (aset result (i * 3) (aget array (i * 4)))
                   (i * 3 + 1) (aget array (i * 4 + 1)))
             (i * 3 + 2) (aget array (i * 4 + 2))"
    have len: "length r = ?L" by (simp add: r_def)
    have new: "r ! (3 * i + k) = array ! (4 * i + k)" if "k < 3" "3 * i + k < ?L" for k
    proof -
      from that "1.prems"(2) have "4 * i + k < length array" by (simp add: fits4)
      moreover from that have "k = 0 \<or> k = 1 \<or> k = 2" by arith
      ultimately show ?thesis using that
        by (auto simp: r_def nth_aset aget_def mult.commute)
    qed
    have old: "r ! j = result ! j" if "j < 3 * i" "j < ?L" for j
      using that by (simp add: r_def nth_aset mult.commute)
    have inv: "\<forall>j. j < 3 * (i + 1) \<longrightarrow> j < length r \<longrightarrow> r ! j = array ! (4 * (j div 3) + j mod 3)"
    proof (intro allI impI)
      fix j assume j: "j < 3 * (i + 1)" "j < length r"
      show "r ! j = array ! (4 * (j div 3) + j mod 3)"
      proof (cases "j < 3 * i")
        case True
        with j len old "1.prems"(3) show ?thesis by simp
      next
        case False
        with j obtain k where k: "j = 3 * i + k" "k < 3"
          by (metis add_diff_inverse_nat add_less_cancel_left mult_Suc_right Suc_eq_plus1 add.commute)
        with j len new[of k] show ?thesis by (simp add: idx3)
      qed
    qed
    have "length (toRGB_loop array pixels (i + 1) r) = length r \<and>
      (\<forall>j<length r. toRGB_loop array pixels (i + 1) r ! j = array ! (4 * (j div 3) + j mod 3))"
      using "1.IH"[OF True "1.prems"(1)] len "1.prems"(2) inv unfolding r_def by simp
    with True len show ?thesis
      by (simp add: toRGB_loop.simps [of array pixels i result] r_def)
  qed
qed


lemma lt_third: "(of_nat i < (of_nat n / 3 :: rat)) = (3 * i < n)"
proof -
  have "(of_nat i < (of_nat n / 3 :: rat)) = (of_nat (3 * i) < (of_nat n :: rat))"
    by (simp add: pos_less_divide_eq mult.commute)
  then show ?thesis by (simp only: of_nat_less_iff)
qed

lemma floor_four_thirds: "nat \<lfloor>(of_nat n / 3 :: rat) * 4\<rfloor> = 4 * n div 3"
proof -
  have "(of_nat n / 3 :: rat) * 4 = of_int (int (4 * n)) / of_int 3" by simp
  then have "\<lfloor>(of_nat n / 3 :: rat) * 4\<rfloor> = int (4 * n) div 3"
    by (simp only: floor_divide_of_int_eq)
  then show ?thesis by (simp add: nat_div_distrib)
qed

lemma idx4: "k < 4 \<Longrightarrow> (4 * i + k) div 4 = i \<and> (4 * i + k) mod 4 = k" for i k :: nat
  by simp

lemma fits3: "4 * i + k < 4 * n div 3 \<Longrightarrow> k < 3 \<Longrightarrow> 3 * i + k < n" for i k n :: nat
  by arith

lemma toRGBA_loop_inv:
  assumes "pixels = of_nat (length array) / 3"
    and "length result = 4 * length array div 3"
    and "\<forall>j. j < 4 * i \<longrightarrow> j < length result \<longrightarrow> result ! j = rgba_at array j"
  shows "length (toRGBA_loop array pixels i result) = length result \<and>
         (\<forall>j < length result. toRGBA_loop array pixels i result ! j = rgba_at array j)"
  using assms
proof (induction array pixels i result rule: toRGBA_loop.induct)
  case (1 array pixels i result)
  let ?L = "length result"
  show ?case
  proof (cases "of_nat i < pixels")
    case False
    with "1.prems"(1) have "length array \<le> 3 * i" by (simp add: lt_third)
    with "1.prems"(2) have "?L \<le> 4 * i" by simp
    with "1.prems"(3) have "\<forall>j < ?L. result ! j = rgba_at array j" by simp
    with False show ?thesis
      by (simp add: toRGBA_loop.simps [of array pixels i result])
  next
    case True
    define r where "r = aset (aset (aset (aset result (i * 4) (aget array (i * 3)))
                         (i * 4 + 1) (aget array (i * 3 + 1)))
                   (i * 4 + 2) (aget array (i * 3 + 2)))
             (i * 4 + 3) (Some 255)"
    have len: "length r = ?L" by (simp add: r_def)
    have new: "r ! (4 * i + k) = rgba_at array (4 * i + k)" if "k < 4" "4 * i + k < ?L" for k
    proof (cases "k = 3")
      case True
      with that show ?thesis
        by (simp add: r_def nth_aset rgba_at_def mult.commute)
    next
      case False
      with that have k3: "k < 3" by simp
      with that "1.prems"(2) have "3 * i + k < length array" by (simp add: fits3)
      moreover from k3 have "k = 0 \<or> k = 1 \<or> k = 2" by arith
      ultimately show ?thesis using that
        by (auto simp: r_def nth_aset aget_def rgba_at_def mult.commute)
    qed
    have old: "r ! j = result ! j" if "j < 4 * i" "j < ?L" for j
      using that by (simp add: r_def nth_aset mult.commute)
    have inv: "\<forall>j. j < 4 * (i + 1) \<longrightarrow> j < length r \<longrightarrow> r ! j = rgba_at array j"
    proof (intro allI impI)
      fix j assume j: "j < 4 * (i + 1)" "j < length r"
      show "r ! j = rgba_at array j"
      proof (cases "j < 4 * i")
        case True
        with j len old "1.prems"(3) show ?thesis by simp
      next
        case False
        with j have "j = 4 * i + (j - 4 * i)" "j - 4 * i < 4" by simp_all
        with j len new[of "j - 4 * i"] show ?thesis by simp
      qed
    qed
    have "length (toRGBA_loop array pixels (i + 1) r) = length r \<and>
      (\<forall>j<length r. toRGBA_loop array pixels (i + 1) r ! j = rgba_at array j)"
      using "1.IH"[OF True "1.prems"(1)] len "1.prems"(2) inv unfolding r_def by simp
    with True len show ?thesis
      by (simp add: toRGBA_loop.simps [of array pixels i result] r_def)
  qed
qed

lemma toRGB_nth_char:
  "length (toRGB xs) = 3 * length xs div 4 \<and>
   (\<forall>j < 3 * length xs div 4. toRGB xs ! j = xs ! (4 * (j div 3) + j mod 3))"
proof -
  let ?r = "new_array (of_nat (length xs) / 4 * 3)"
  have L: "length ?r = 3 * length xs div 4"
    by (simp only: new_array_def length_replicate floor_three_quarters)
  have "\<forall>j. j < 3 * 0 \<longrightarrow> j < length ?r \<longrightarrow> ?r ! j = xs ! (4 * (j div 3) + j mod 3)"
    by simp
  from toRGB_loop_inv [OF refl L this] L show ?thesis
    unfolding toRGB_def Let_def by simp
qed

lemma toRGBA_nth_char:
  "length (toRGBA xs) = 4 * length xs div 3 \<and>
   (\<forall>j < 4 * length xs div 3. toRGBA xs ! j = rgba_at xs j)"
proof -
  let ?r = "new_array (of_nat (length xs) / 3 * 4)"
  have L: "length ?r = 4 * length xs div 3"
    by (simp only: new_array_def length_replicate floor_four_thirds)
  have "\<forall>j. j < 4 * 0 \<longrightarrow> j < length ?r \<longrightarrow> ?r ! j = rgba_at xs j"
    by simp
  from toRGBA_loop_inv [OF refl L this] L show ?thesis
    unfolding toRGBA_def Let_def by simp
qed


lemma length_drop_every_4th: "length (drop_every_4th xs) = length xs div 4 * 3"
  by (induction xs rule: drop_every_4th.induct) simp_all

lemma length_insert_alpha: "length (insert_alpha xs) = length xs div 3 * 4"
  by (induction xs rule: insert_alpha.induct) simp_all

lemma nth_drop_every_4th:
  "j < length (drop_every_4th xs) \<Longrightarrow> drop_every_4th xs ! j = xs ! (4 * (j div 3) + j mod 3)"
proof (induction xs arbitrary: j rule: drop_every_4th.induct)
  case (1 r g b a rest)
  show ?case
  proof (cases "j < 3")
    case True
    then have "j = 0 \<or> j = Suc 0 \<or> j = Suc (Suc 0)" by arith
    then show ?thesis by auto
  next
    case False
    then have "j = Suc (Suc (Suc (j - 3)))" by simp
    then obtain m where m: "j = Suc (Suc (Suc m))" ..
    with "1.prems" have "m < length (drop_every_4th rest)" by simp
    from "1.IH"[OF this] have "drop_every_4th rest ! m = rest ! (4 * (m div 3) + m mod 3)" .
    moreover have "j div 3 = Suc (m div 3)" "j mod 3 = m mod 3" using m by simp_all
    ultimately show ?thesis using m by simp
  qed
qed simp_all



lemma nth_insert_alpha:
  "j < length (insert_alpha xs) \<Longrightarrow> insert_alpha xs ! j = rgba_at xs j"
proof (induction xs arbitrary: j rule: insert_alpha.induct)
  case (1 r g b rest)
  show ?case
  proof (cases "j < 4")
    case True
    then have "j = 0 \<or> j = Suc 0 \<or> j = Suc (Suc 0) \<or> j = Suc (Suc (Suc 0))" by arith
    then show ?thesis by (auto simp: rgba_at_def)
  next
    case False
    then have "j = Suc (Suc (Suc (Suc (j - 4))))" by simp
    then obtain m where m: "j = Suc (Suc (Suc (Suc m)))" ..
    with "1.prems" have "m < length (insert_alpha rest)" by simp
    from "1.IH"[OF this] have "insert_alpha rest ! m = rgba_at rest m" .
    moreover have "j div 4 = Suc (m div 4)" "j mod 4 = m mod 4" using m by simp_all
    ultimately show ?thesis using m by (simp add: rgba_at_def)
  qed
qed simp_all


lemma three_quarters: "3 * n div 4 = n div 4 * 3 + (n mod 4 - 1)" for n :: nat
proof -
  define q r where "q = n div 4" and "r = n mod 4"
  have n: "n = 4 * q + r" and r: "r < 4" by (simp_all add: q_def r_def)
  have "3 * n = 4 * (3 * q) + 3 * r" using n by simp
  then have "3 * n div 4 = 3 * q + 3 * r div 4" by (simp only: div_mult_self4)
  moreover from r have "r = 0 \<or> r = 1 \<or> r = 2 \<or> r = 3" by arith
  then have "3 * r div 4 = r - 1" by auto
  ultimately show ?thesis by (simp add: q_def r_def)
qed

lemma four_thirds: "4 * n div 3 = n div 3 * 4 + n mod 3" for n :: nat
proof -
  define q r where "q = n div 3" and "r = n mod 3"
  have n: "n = 3 * q + r" and r: "r < 3" by (simp_all add: q_def r_def)
  have "4 * n = 3 * (4 * q) + 4 * r" using n by simp
  then have "4 * n div 3 = 4 * q + 4 * r div 3" by (simp only: div_mult_self4)
  moreover from r have "r = 0 \<or> r = 1 \<or> r = 2" by arith
  then have "4 * r div 3 = r" by auto
  ultimately show ?thesis by (simp add: q_def r_def)
qed

lemma nth_drop_groups: "k < length xs mod 4 \<Longrightarrow> drop (4 * (length xs div 4)) xs ! k = xs ! (4 * (length xs div 4) + k)"
proof -
  assume k: "k < length xs mod 4"
  have "length xs = 4 * (length xs div 4) + length xs mod 4" by simp
  with k have "4 * (length xs div 4) + k < length xs" by linarith
  then show ?thesis by simp
qed

lemma length_rgb_tail: "length (rgb_tail xs) = length xs mod 4 - 1"
proof -
  have "length xs - 4 * (length xs div 4) = length xs mod 4"
    by (simp add: modulo_nat_def mult.commute)
  then show ?thesis by (simp add: rgb_tail_def)
qed

lemma length_rgba_tail: "length (rgba_tail xs) = length xs mod 3"
  by (simp add: rgba_tail_def modulo_nat_def mult.commute)

lemma toRGB_eq: "toRGB xs = drop_every_4th xs @ rgb_tail xs"
proof (rule nth_equalityI)
  define q r where "q = length xs div 4" and "r = length xs mod 4"
  have L: "length (toRGB xs) = q * 3 + (r - 1)"
    using toRGB_nth_char [of xs] by (simp only: three_quarters q_def r_def)
  have lt: "length (rgb_tail xs) = r - 1" by (simp only: length_rgb_tail r_def)
  have ld: "length (drop_every_4th xs) = q * 3" by (simp only: length_drop_every_4th q_def)
  show "length (toRGB xs) = length (drop_every_4th xs @ rgb_tail xs)"
    using L lt ld by simp
  fix j assume j: "j < length (toRGB xs)"
  with toRGB_nth_char [of xs] have eq: "toRGB xs ! j = xs ! (4 * (j div 3) + j mod 3)"
    by simp
  show "toRGB xs ! j = (drop_every_4th xs @ rgb_tail xs) ! j"
  proof (cases "j < q * 3")
    case True
    then show ?thesis
      using eq ld by (simp add: nth_append nth_drop_every_4th)
  next
    case False
    define k where "k = j - q * 3"
    from False have jk: "j = 3 * q + k" by (simp add: k_def)
    from j L jk have k: "k < r - 1" by linarith
    moreover have "r < 4" by (simp add: r_def)
    ultimately have k3: "k < 3" and kr: "k < r" by linarith+
    have "(drop_every_4th xs @ rgb_tail xs) ! j = rgb_tail xs ! k"
      using False ld by (simp add: nth_append k_def)
    also have "\<dots> = drop (4 * q) xs ! k"
      using k lt unfolding rgb_tail_def q_def by (simp add: nth_butlast)
    also have "\<dots> = xs ! (4 * q + k)"
      using kr unfolding q_def r_def by (rule nth_drop_groups)
    finally show ?thesis using eq k3 unfolding jk by (simp add: idx3)
  qed
qed


lemma nth_drop_triples: "k < length xs mod 3 \<Longrightarrow> drop (3 * (length xs div 3)) xs ! k = xs ! (3 * (length xs div 3) + k)"
proof -
  assume k: "k < length xs mod 3"
  have "length xs = 3 * (length xs div 3) + length xs mod 3" by simp
  with k have "3 * (length xs div 3) + k < length xs" by linarith
  then show ?thesis by simp
qed

lemma toRGBA_eq: "toRGBA xs = insert_alpha xs @ rgba_tail xs"
proof (rule nth_equalityI)
  define q r where "q = length xs div 3" and "r = length xs mod 3"
  have L: "length (toRGBA xs) = q * 4 + r"
    using toRGBA_nth_char [of xs] by (simp only: four_thirds q_def r_def)
  have lt: "length (rgba_tail xs) = r" by (simp only: length_rgba_tail r_def)
  have ld: "length (insert_alpha xs) = q * 4" by (simp only: length_insert_alpha q_def)
  show "length (toRGBA xs) = length (insert_alpha xs @ rgba_tail xs)"
    using L lt ld by simp
  fix j assume j: "j < length (toRGBA xs)"
  with toRGBA_nth_char [of xs] have eq: "toRGBA xs ! j = rgba_at xs j"
    by simp
  show "toRGBA xs ! j = (insert_alpha xs @ rgba_tail xs) ! j"
  proof (cases "j < q * 4")
    case True
    then show ?thesis
      using eq ld by (simp add: nth_append nth_insert_alpha)
  next
    case False
    define k where "k = j - q * 4"
    from False have jk: "j = 4 * q + k" by (simp add: k_def)
    from j L jk have k: "k < r" by linarith
    moreover have "r < 3" by (simp add: r_def)
    ultimately have k3: "k < 3" by linarith
    then have k4: "k < 4" by simp
    have "(insert_alpha xs @ rgba_tail xs) ! j = rgba_tail xs ! k"
      using False ld by (simp add: nth_append k_def)
    also have "\<dots> = xs ! (3 * q + k)"
      using k unfolding rgba_tail_def q_def r_def by (rule nth_drop_triples)
    finally show ?thesis using eq k3 idx4 [OF k4, of q] unfolding jk by (simp add: rgba_at_def)
  qed
qed

lemma toRGBA_toRGB_nth:
  assumes "4 dvd length x"
  shows "length (toRGBA (toRGB x)) = length x \<and>
         (\<forall>i < length x. toRGBA (toRGB x) ! i = (if i mod 4 = 3 then 255 else x ! i))"
proof -
  from assms obtain m where m: "length x = 4 * m" by (auto elim: dvdE)
  have l3: "length (toRGB x) = 3 * m"
    using toRGB_nth_char [of x] m by simp
  have l4: "length (toRGBA (toRGB x)) = 4 * m"
    using toRGBA_nth_char [of "toRGB x"] l3 by simp
  have "toRGBA (toRGB x) ! i = (if i mod 4 = 3 then 255 else x ! i)" if i: "i < 4 * m" for i
  proof -
    define q k where "q = i div 4" and "k = i mod 4"
    have ik: "i = 4 * q + k" and k4: "k < 4" by (simp_all add: q_def k_def)
    with i have q: "q < m" by linarith
    from i l3 toRGBA_nth_char [of "toRGB x"]
    have e1: "toRGBA (toRGB x) ! i = rgba_at (toRGB x) i" by simp
    show ?thesis
    proof (cases "k = 3")
      case True
      with e1 show ?thesis by (simp add: rgba_at_def k_def)
    next
      case False
      with k4 have k3: "k < 3" by simp
      with q have "3 * q + k < 3 * m" by linarith
      with toRGB_nth_char [of x] m
      have "toRGB x ! (3 * q + k) = x ! (4 * ((3 * q + k) div 3) + (3 * q + k) mod 3)"
        by simp
      also have "\<dots> = x ! i" using idx3 [OF k3, of q] ik by simp
      finally show ?thesis using e1 False by (simp add: rgba_at_def q_def [symmetric] k_def [symmetric])
    qed
  qed
  with l4 m show ?thesis by simp
qed


section \<open>Header codec: encoding and decoding the block\<close>

lemma low_byte_shift:
  "k \<le> 24 \<Longrightarrow> (ucast (signed_drop_bit k (x :: 32 word) AND 255) :: 8 word) = ucast (drop_bit k x)"
proof (rule bit_word_eqI)
  fix n assume "n < LENGTH(8)" and k: "k \<le> 24"
  then have n: "n < 8" by simp
  have m: "(255 :: 32 word) = mask 8" by (simp add: mask_eq_exp_minus_1)
  show "bit (ucast (signed_drop_bit k x AND 255) :: 8 word) n = bit (ucast (drop_bit k x) :: 8 word) n"
    using n k unfolding m
    by (auto simp add: bit_simps bit_signed_drop_bit_iff)
qed

lemma unat_low_byte: "unat (ucast (drop_bit k (x :: 32 word)) :: 8 word) = unat x div 2 ^ k mod 256"
proof -
  have "unat (ucast (drop_bit k x) :: 8 word) = take_bit 8 (drop_bit k (unat x))"
    by (simp only: unsigned_ucast_eq unat_drop_bit_eq) simp
  then show ?thesis by (simp add: take_bit_eq_mod drop_bit_eq_div)
qed

lemma bytes_sum:
  fixes n :: nat
  assumes n: "n < 2 ^ 32"
  shows "n div 16777216 * 16777216 + n div 65536 mod 256 * 65536 +
         n div 256 mod 256 * 256 + n mod 256 = n"
    and "n div 16777216 < 256"
proof -
  define a b c where "a = n div 256" and "b = a div 256" and "c = b div 256"
  have e1: "n = a * 256 + n mod 256" by (simp add: a_def)
  have e2: "a = b * 256 + a mod 256" by (simp add: b_def)
  have e3: "b = c * 256 + b mod 256" by (simp add: c_def)
  have d8: "n div 256 = a" by (simp add: a_def)
  have d16: "n div 65536 = b" by (simp add: a_def b_def div_mult2_eq [symmetric])
  have d24: "n div 16777216 = c" by (simp add: a_def b_def c_def div_mult2_eq [symmetric])
  show "n div 16777216 < 256" using n by (simp add: less_mult_imp_div_less)
  show "n div 16777216 * 16777216 + n div 65536 mod 256 * 65536 +
         n div 256 mod 256 * 256 + n mod 256 = n"
    unfolding d8 d16 d24 using e1 e2 e3 by simp
qed

lemma length_encodeUint [simp]: "length (encodeUint n) = 4"
  by (simp add: encodeUint_def Let_def)

lemma ceil_fits: "0 < b \<Longrightarrow> a \<le> nat \<lceil>(of_nat a :: rat) / of_nat b\<rceil> * b"
proof -
  assume b: "0 < b"
  let ?c = "\<lceil>(of_nat a :: rat) / of_nat b\<rceil>"
  have "(0 :: rat) \<le> of_nat a / of_nat b" by simp
  then have "(- 1 :: rat) < of_nat a / of_nat b" by linarith
  then have c0: "0 \<le> ?c" by (simp only: zero_le_ceiling)
  have bpos: "(0 :: rat) < of_nat b" using b by simp
  have "(of_nat a :: rat) / of_nat b \<le> of_int ?c" by (rule le_of_int_ceiling)
  then have "(of_nat a :: rat) \<le> of_int ?c * of_nat b"
    by (simp only: pos_divide_le_eq [OF bpos])
  also have "of_int ?c = (of_nat (nat ?c) :: rat)" using c0 by simp
  finally have "(of_nat a :: rat) \<le> of_nat (nat ?c * b)" by simp
  then show ?thesis by (simp only: of_nat_le_iff)
qed

lemma flag_bytes:
  "ucast (signed_drop_bit 8 (0x8000 :: 32 word)) = (0x80 :: byte)"
  "ucast ((0x8000 :: 32 word) AND 255) = (0 :: byte)"
  "ucast (signed_drop_bit 8 (0 :: 32 word)) = (0 :: byte)"
  "ucast ((0 :: 32 word) AND 255) = (0 :: byte)"
  by code_simp+

lemma encodeUint_0: "encodeUint 0 = [0, 0, 0, 0]"
  by (simp add: encodeUint_def)

lemma ta_set_mid:
  "length pre = off \<Longrightarrow> length mid = length d \<Longrightarrow>
   ta_set (pre @ mid @ post) d off = Inr (pre @ d @ post)"
  by (simp add: ta_set_def)

lemma setForward_all_ok:
  "length pre = off \<Longrightarrow> length mid = length (concat ds) \<Longrightarrow>
   setForward_all (pre @ mid @ post, off) ds = Inr (pre @ concat ds @ post, off + length (concat ds))"
proof (induction ds arbitrary: pre mid off)
  case Nil
  then show ?case by simp
next
  case (Cons d ds)
  define m1 m2 where "m1 = take (length d) mid" and "m2 = drop (length d) mid"
  have mid: "mid = m1 @ m2" and l1: "length m1 = length d" and l2: "length m2 = length (concat ds)"
    using Cons.prems(2) by (simp_all add: m1_def m2_def)
  have "ta_set (pre @ m1 @ (m2 @ post)) d off = Inr (pre @ d @ (m2 @ post))"
    using Cons.prems(1) l1 by (rule ta_set_mid)
  then have sf: "setForward (pre @ mid @ post, off) d = Inr ((pre @ d) @ m2 @ post, off + length d)"
    by (simp add: setForward_def mid)
  have "setForward_all ((pre @ d) @ m2 @ post, off + length d) ds =
          Inr ((pre @ d) @ concat ds @ post, off + length d + length (concat ds))"
    using Cons.prems(1) l2 by (intro Cons.IH) simp_all
  with sf show ?case by (simp add: add.assoc)
qed


lemma length_header_block:
  "length nonce = 16 \<Longrightarrow> length tg = 16 \<Longrightarrow> length key = 32 \<Longrightarrow>
   length (header_block usePw wd ht nonce tg key hh) = 92"
  by (simp add: header_block_def SMZZL_IDENTIFIER_def SMZZL_VERSION_def)

lemma length_getRandomValues:
  "getRandomValues n g = Inr (bs, g') \<Longrightarrow> length bs = n"
  by (auto simp: getRandomValues_def split: if_splits)

lemma encodeHeader_fill:
  assumes w: "0 < wd" and liv: "length nonce = 16" and ltag: "length tg = 16"
    and key: "if usePw then getRandomValues KEY_LENGTH g = Inr (key, g1)
              else key = kb \<and> g1 = g \<and> length kb = 32"
    and hh: "hh = nat \<lceil>(92 :: rat) / of_nat (3 * wd)\<rceil>"
  shows "encodeHeader wd ht nonce tg usePw kb g =
           (case getRandomValues (hh * (3 * wd)) g1 of
              Inl e \<Rightarrow> Inl e
            | Inr (rnd, g2) \<Rightarrow>
                Inr ((header_block usePw wd ht nonce tg key hh @ drop 92 rnd, hh), g2))"
proof -
  define flagArray :: "byte list" where "flagArray = [if usePw then 0x80 else 0, 0]"
  define pre where "pre = SMZZL_IDENTIFIER @ SMZZL_VERSION @ flagArray @ encodeUint wd @ encodeUint ht @ nonce @ tg"
  have lpre: "length pre = 48"
    by (simp add: pre_def flagArray_def SMZZL_IDENTIFIER_def SMZZL_VERSION_def liv ltag)
  have lkey: "length key = 32"
    using key length_getRandomValues [of KEY_LENGTH g key g1]
    by (auto simp: KEY_LENGTH_def split: if_splits)
  have key': "(if usePw then getRandomValues KEY_LENGTH g else Inr (kb, g)) = Inr (key, g1)"
    using key by (auto split: if_splits)
  have s1: "setForward_all (replicate 92 0, 0)
              [SMZZL_IDENTIFIER, SMZZL_VERSION, flagArray, encodeUint wd, encodeUint ht, nonce, tg]
            = Inr (pre @ replicate 44 0, 48)"
  proof -
    have "replicate 92 (0::byte) = [] @ replicate 48 0 @ replicate 44 0"
      by (simp add: replicate_add [symmetric])
    moreover have "concat [SMZZL_IDENTIFIER, SMZZL_VERSION, flagArray, encodeUint wd, encodeUint ht, nonce, tg] = pre"
      by (simp add: pre_def)
    moreover have "setForward_all ([] @ replicate 48 0 @ replicate 44 0, 0)
              [SMZZL_IDENTIFIER, SMZZL_VERSION, flagArray, encodeUint wd, encodeUint ht, nonce, tg]
          = Inr ([] @ concat [SMZZL_IDENTIFIER, SMZZL_VERSION, flagArray, encodeUint wd, encodeUint ht, nonce, tg] @ replicate 44 0,
                 0 + length (concat [SMZZL_IDENTIFIER, SMZZL_VERSION, flagArray, encodeUint wd, encodeUint ht, nonce, tg]))"
      using lpre by (intro setForward_all_ok) (simp_all add: pre_def)
    ultimately show ?thesis using lpre by simp
  qed
  define blk0 where "blk0 = pre @ key @ [0, 0, 0, 0] @ [0, 0, 0, 0] @ [0, 0, 0, 0 :: byte]"
  have s2: "setForward_all (pre @ replicate 44 0, 48)
              [key, replicate NUMBER_LENGTH 0, replicate NUMBER_LENGTH 0, encodeUint 0]
            = Inr (blk0, 92)"
  proof -
    have c: "concat [key, replicate NUMBER_LENGTH 0, replicate NUMBER_LENGTH 0, encodeUint 0]
              = key @ [0, 0, 0, 0] @ [0, 0, 0, 0] @ [0, 0, 0, 0]"
      by (simp add: NUMBER_LENGTH_def encodeUint_0 numeral_eq_Suc)
    have "setForward_all (pre @ replicate 44 0 @ [], 48)
              [key, replicate NUMBER_LENGTH 0, replicate NUMBER_LENGTH 0, encodeUint 0]
          = Inr (pre @ concat [key, replicate NUMBER_LENGTH 0, replicate NUMBER_LENGTH 0, encodeUint 0] @ [],
                 48 + length (concat [key, replicate NUMBER_LENGTH 0, replicate NUMBER_LENGTH 0, encodeUint 0]))"
      by (rule setForward_all_ok) (simp_all add: lpre lkey NUMBER_LENGTH_def)
    then show ?thesis unfolding c by (simp add: blk0_def lkey)
  qed
  define blk where "blk = header_block usePw wd ht nonce tg key hh"
  have blk: "blk = (pre @ key) @ encodeUint hh @ ([0, 0, 0, 0] @ [0, 0, 0, 0])"
    by (simp add: blk_def header_block_def pre_def flagArray_def)
  have s3: "ta_set blk0 (encodeUint hh) HEADERHEIGHT_INDEX = Inr blk"
  proof -
    have "ta_set ((pre @ key) @ [0, 0, 0, 0] @ ([0, 0, 0, 0] @ [0, 0, 0, 0])) (encodeUint hh) HEADERHEIGHT_INDEX
          = Inr ((pre @ key) @ encodeUint hh @ ([0, 0, 0, 0] @ [0, 0, 0, 0]))"
      by (rule ta_set_mid) (simp_all add: lpre lkey HEADERHEIGHT_INDEX_def)
    then show ?thesis by (simp add: blk0_def blk)
  qed
  have lblk: "length blk = 92" unfolding blk_def using liv ltag lkey by (rule length_header_block)
  have fl: "[ucast (signed_drop_bit 8 (if usePw then 0x8000 else 0x0000 :: 32 word)),
             ucast ((if usePw then 0x8000 else 0x0000 :: 32 word) AND 255)] = flagArray"
    by (simp add: flagArray_def flag_bytes)
  have hh': "nat \<lceil>(of_nat (92 + 0) :: rat) / of_nat (3 * wd)\<rceil> = hh" by (simp add: hh)
  note unfolded = encodeHeader_def Let_def HEADER_MINIMUM_LENGTH_def fl s1 sum.case key' prod.case s2
      fst_conv hh' s3
  show ?thesis
  proof (cases "getRandomValues (hh * (3 * wd)) g1")
    case (Inl e)
    then show ?thesis unfolding unfolded using w by simp
  next
    case (Inr r)
    obtain rnd g2 where r: "r = (rnd, g2)" by (cases r)
    from Inr r have rnd: "getRandomValues (hh * (3 * wd)) g1 = Inr (rnd, g2)" by simp
    have lrnd: "length rnd = hh * (3 * wd)" using rnd by (rule length_getRandomValues)
    have fits: "92 \<le> length rnd"
      using ceil_fits [of "3 * wd" 92] w by (simp add: lrnd hh)
    have s4: "ta_set rnd blk 0 = Inr (blk @ drop 92 rnd)"
      using fits by (simp add: ta_set_def lblk)
    have s5: "ta_set (blk @ drop 92 rnd) [] 92 = Inr (blk @ drop 92 rnd)"
      using fits by (simp add: ta_set_def lblk)
    show ?thesis
      unfolding unfolded
      using w rnd s4 s5 by (simp add: blk_def)
  qed
qed

lemma encodeHeader_ok:
  assumes w: "0 < wd" and liv: "length nonce = 16" and ltag: "length tg = 16"
    and key: "if usePw then getRandomValues KEY_LENGTH g = Inr (key, g1)
              else key = kb \<and> g1 = g \<and> length kb = 32"
    and hh: "hh = nat \<lceil>(92 :: rat) / of_nat (3 * wd)\<rceil>"
    and rnd: "getRandomValues (hh * (3 * wd)) g1 = Inr (rnd, g2)"
  shows "encodeHeader wd ht nonce tg usePw kb g =
           Inr ((header_block usePw wd ht nonce tg key hh @ drop 92 rnd, hh), g2)"
  by (simp add: encodeHeader_fill [OF w liv ltag key hh] rnd)

lemma encodeHeader_refused:
  assumes w: "0 < wd" and liv: "length nonce = 16" and ltag: "length tg = 16"
    and key: "if usePw then getRandomValues KEY_LENGTH g = Inr (key, g1)
              else key = kb \<and> g1 = g \<and> length kb = 32"
    and hh: "hh = nat \<lceil>(92 :: rat) / of_nat (3 * wd)\<rceil>"
    and rf: "refuses g1 (hh * (3 * wd))"
  shows "encodeHeader wd ht nonce tg usePw kb g = Inl QuotaExceededError"
  using rf by (simp add: encodeHeader_fill [OF w liv ltag key hh] getRandomValues_def)


lemma decodeUint_encodeUint: "n < 2 ^ 32 \<Longrightarrow> decodeUint (encodeUint n) = Some n"
proof -
  assume n: "n < 2 ^ 32"
  define x where "x = (word_of_nat n :: 32 word)"
  have ux: "unat x = n" using n by (simp add: x_def unat_of_nat)
  have last: "(ucast (x AND 255) :: byte) = ucast (drop_bit 0 x)"
    using low_byte_shift [of 0 x] by simp
  have "encodeUint n = [ucast (drop_bit 24 x), ucast (drop_bit 16 x), ucast (drop_bit 8 x), ucast (drop_bit 0 x)]"
    unfolding encodeUint_def Let_def x_def [symmetric] last
    by (simp only: low_byte_shift)
  then show ?thesis
    using bytes_sum [OF n]
    by (simp add: decodeUint_def aget_def unat_low_byte ux del: drop_bit_0)
qed

lemma readForward_eq: "readForward d off len = (take len (drop off d), off + len)"
proof -
  have "subarray d (int off) (int (off + len)) = take len (drop off d)"
    by (simp add: subarray_def rel_index_def Let_def min_def nat_int_add)
  then show ?thesis by (simp only: readForward_def)
qed


lemma field_at:
  "xs = pre @ mid @ post \<Longrightarrow> length pre = n \<Longrightarrow> length mid = m \<Longrightarrow> take m (drop n xs) = mid"
  by simp

lemma decodeHeader_block:
  assumes liv: "length nonce = 16" and ltag: "length tg = 16" and lkey: "length key = 32"
    and wd: "wd < 2 ^ 32" and ht: "ht < 2 ^ 32" and hh: "hh < 2 ^ 32"
  shows "decodeHeader (header_block usePw wd ht nonce tg key hh @ rest) =
           Some \<lparr>signiture = SMZZL_IDENTIFIER, version = 3, usePassword = usePw,
                  w = Some wd, h = Some ht, iv = nonce, tag = tg, keyBytes = key,
                  headerHeight = Some hh, footerHeight = Some 0, areaDataLength = Some 0\<rparr>"
proof -
  define B where "B = header_block usePw wd ht nonce tg key hh @ rest"
  define fl :: "byte list" where "fl = [if usePw then 0x80 else 0, 0]"
  note defs = B_def header_block_def fl_def [symmetric]
  have lid: "length SMZZL_IDENTIFIER = 5" and lver: "length SMZZL_VERSION = 1" and lfl: "length fl = 2"
    by (simp_all add: SMZZL_IDENTIFIER_def SMZZL_VERSION_def fl_def)
  note lens = lid lver lfl liv ltag lkey length_encodeUint
  have f1: "take 5 B = SMZZL_IDENTIFIER"
    by (simp add: defs lens)
  have f2: "take 1 (drop 5 B) = SMZZL_VERSION"
    by (rule field_at [where pre = "SMZZL_IDENTIFIER"]) (simp_all add: defs lens)
  have f3: "take 2 (drop 6 B) = fl"
    by (rule field_at [where pre = "SMZZL_IDENTIFIER @ SMZZL_VERSION"]) (simp_all add: defs lens)
  have f4: "take 4 (drop 8 B) = encodeUint wd"
    by (rule field_at [where pre = "SMZZL_IDENTIFIER @ SMZZL_VERSION @ fl"])
       (simp_all add: defs lens)
  have f5: "take 4 (drop 12 B) = encodeUint ht"
    by (rule field_at [where pre = "SMZZL_IDENTIFIER @ SMZZL_VERSION @ fl @ encodeUint wd"])
       (simp_all add: defs lens)
  have f6: "take 16 (drop 16 B) = nonce"
    by (rule field_at [where pre = "SMZZL_IDENTIFIER @ SMZZL_VERSION @ fl @ encodeUint wd @ encodeUint ht"])
       (simp_all add: defs lens)
  have f7: "take 16 (drop 32 B) = tg"
    by (rule field_at [where pre = "SMZZL_IDENTIFIER @ SMZZL_VERSION @ fl @ encodeUint wd @ encodeUint ht @ nonce"])
       (simp_all add: defs lens)
  have f8: "take 32 (drop 48 B) = key"
    by (rule field_at [where pre = "SMZZL_IDENTIFIER @ SMZZL_VERSION @ fl @ encodeUint wd @ encodeUint ht @ nonce @ tg"])
       (simp_all add: defs lens)
  have f9: "take 4 (drop 80 B) = encodeUint hh"
    by (rule field_at [where pre = "SMZZL_IDENTIFIER @ SMZZL_VERSION @ fl @ encodeUint wd @ encodeUint ht @ nonce @ tg @ key"])
       (simp_all add: defs lens)
  have f10: "take 4 (drop 84 B) = encodeUint 0"
    by (rule field_at [where pre = "SMZZL_IDENTIFIER @ SMZZL_VERSION @ fl @ encodeUint wd @ encodeUint ht @ nonce @ tg @ key @ encodeUint hh"])
       (simp_all add: defs lens encodeUint_0)
  have f11: "take 4 (drop 88 B) = encodeUint 0"
    by (rule field_at [where pre = "SMZZL_IDENTIFIER @ SMZZL_VERSION @ fl @ encodeUint wd @ encodeUint ht @ nonce @ tg @ key @ encodeUint hh @ [0, 0, 0, 0]"])
       (simp_all add: defs lens encodeUint_0)
  have z: "decodeUint (encodeUint 0) = Some 0" by (rule decodeUint_encodeUint) simp
  have v: "take (Suc 0) (drop 5 B) = SMZZL_VERSION" using f2 by simp
  have v0: "drop 5 B ! 0 = 3"
  proof -
    have "drop 5 B ! 0 = take 1 (drop 5 B) ! 0" by simp
    also have "\<dots> = 3" unfolding f2 by (simp add: SMZZL_VERSION_def)
    finally show ?thesis .
  qed
  have fg: "(case aget (take 2 (drop 6 B)) 0 of None \<Rightarrow> False | Some b \<Rightarrow> b AND 0x80 \<noteq> 0) = usePw"
    by (simp add: f3 fl_def aget_def)
  have dw: "decodeUint (take 4 (drop 8 B)) = Some wd"
    and dh: "decodeUint (take 4 (drop 12 B)) = Some ht"
    and dhh: "decodeUint (take 4 (drop 80 B)) = Some hh"
    and dfh: "decodeUint (take 4 (drop 84 B)) = Some 0"
    and dad: "decodeUint (take 4 (drop 88 B)) = Some 0"
    by (simp_all only: f4 f5 f9 f10 f11 z decodeUint_encodeUint [OF wd]
          decodeUint_encodeUint [OF ht] decodeUint_encodeUint [OF hh])
  show ?thesis
    unfolding B_def [symmetric] decodeHeader_def readForward_eq Let_def prod.case lid lver
      FLAG_LENGTH_def NUMBER_LENGTH_def IV_LENGTH_def TAG_LENGTH_def KEY_LENGTH_def
    by (simp add: f1 v v0 fg dw dh dhh dfh dad f6 f7 f8 SMZZL_VERSION_def)
qed


lemma header_block_key:
  assumes "length nonce = 16" and "length tg = 16" and "length key = 32"
  shows "take 32 (drop 48 (header_block usePw wd ht nonce tg key hh @ rest)) = key"
  by (rule field_at [where pre = "SMZZL_IDENTIFIER @ SMZZL_VERSION @ [if usePw then 0x80 else 0, 0] @ encodeUint wd @ encodeUint ht @ nonce @ tg"])
     (simp_all add: header_block_def assms SMZZL_IDENTIFIER_def SMZZL_VERSION_def)

lemma header_block_hh:
  assumes "length nonce = 16" and "length tg = 16" and "length key = 32"
  shows "take 4 (drop 80 (header_block usePw wd ht nonce tg key hh @ rest)) = encodeUint hh"
  by (rule field_at [where pre = "SMZZL_IDENTIFIER @ SMZZL_VERSION @ [if usePw then 0x80 else 0, 0] @ encodeUint wd @ encodeUint ht @ nonce @ tg @ key"])
     (simp_all add: header_block_def assms SMZZL_IDENTIFIER_def SMZZL_VERSION_def)

lemma header_block_flags:
  assumes "length nonce = 16" and "length tg = 16" and "length key = 32"
  shows "take 2 (drop 6 (header_block usePw wd ht nonce tg key hh @ rest)) = [if usePw then 0x80 else 0, 0]"
  by (rule field_at [where pre = "SMZZL_IDENTIFIER @ SMZZL_VERSION"])
     (simp_all add: header_block_def assms SMZZL_IDENTIFIER_def SMZZL_VERSION_def)

lemma header_height_le: "nat \<lceil>(92 :: rat) / of_nat (3 * wd)\<rceil> \<le> 92"
proof -
  have "(92 :: rat) / of_nat (3 * wd) \<le> 92"
  proof (cases "wd = 0")
    case True
    then show ?thesis by simp
  next
    case False
    then have "1 \<le> 3 * wd" by simp
    then have "(of_nat 1 :: rat) \<le> of_nat (3 * wd)" by (simp only: of_nat_le_iff)
    then have "(1 :: rat) \<le> of_nat (3 * wd)" by simp
    then have "(92 :: rat) / of_nat (3 * wd) \<le> 92 / 1"
      by (intro divide_left_mono) simp_all
    then show ?thesis by simp
  qed
  then have "\<lceil>(92 :: rat) / of_nat (3 * wd)\<rceil> \<le> 92" by (simp add: ceiling_le_iff)
  then show ?thesis by linarith
qed

lemma refuses_getRandomValues:
  "getRandomValues n g = Inr (bs, g') \<Longrightarrow> refuses g' = refuses g"
  by (auto simp: getRandomValues_def split: if_splits)

lemma getRandomValues_served:
  "\<not> refuses g n \<Longrightarrow> \<exists>bs g'. getRandomValues n g = Inr (bs, g')"
  by (simp add: getRandomValues_def)

lemma height_one: "92 < 3 * wd \<Longrightarrow> nat \<lceil>(92 :: rat) / of_nat (3 * wd)\<rceil> = 1"
proof -
  assume a: "92 < 3 * wd"
  then have "(of_nat 92 :: rat) < of_nat (3 * wd)" by (simp only: of_nat_less_iff)
  then have l: "(92 :: rat) < of_nat (3 * wd)" by simp
  then have p: "(0 :: rat) < 92 / of_nat (3 * wd)" by simp
  have "(92 :: rat) / of_nat (3 * wd) \<le> 1" using l by simp
  with p have "\<lceil>(92 :: rat) / of_nat (3 * wd)\<rceil> = 1" by (intro ceiling_unique) simp_all
  then show ?thesis by simp
qed

lemma browser_serves:
  assumes "wd \<le> 21845"
  shows "\<not> refuses (browser_rng src) (nat \<lceil>(92 :: rat) / of_nat (3 * wd)\<rceil> * (3 * wd))"
proof (cases "92 < 3 * wd")
  case True
  then have h1: "nat \<lceil>(92 :: rat) / of_nat (3 * wd)\<rceil> = 1" by (rule height_one)
  show ?thesis unfolding h1 using assms by (simp add: browser_rng_def)
next
  case False
  then have "3 * wd \<le> 92" by simp
  with header_height_le [of wd]
  have "nat \<lceil>(92 :: rat) / of_nat (3 * wd)\<rceil> * (3 * wd) \<le> 92 * 92" by (rule mult_le_mono)
  then show ?thesis by (simp add: browser_rng_def)
qed

lemma browser_refuses:
  assumes "21845 < wd"
  shows "refuses (browser_rng src) (nat \<lceil>(92 :: rat) / of_nat (3 * wd)\<rceil> * (3 * wd))"
proof -
  from assms have "92 < 3 * wd" by simp
  then have h1: "nat \<lceil>(92 :: rat) / of_nat (3 * wd)\<rceil> = 1" by (rule height_one)
  show ?thesis unfolding h1 using assms by (simp add: browser_rng_def)
qed

lemma browser_small: "n \<le> 65536 \<Longrightarrow> \<not> refuses (browser_rng src) n"
  by (simp add: browser_rng_def)

lemma header_heights:
  "nat \<lceil>(92 :: rat) / of_nat (3 * 1)\<rceil> = 31"
  "nat \<lceil>(92 :: rat) / of_nat (3 * 10)\<rceil> = 4"
  "nat \<lceil>(92 :: rat) / of_nat (3 * 100)\<rceil> = 1"
  "nat \<lceil>(92 :: rat) / of_nat (3 * 4096)\<rceil> = 1"
proof -
  have "\<lceil>(92 :: rat) / of_nat (3 * 1)\<rceil> = 31" by (rule ceiling_unique) simp_all
  then show "nat \<lceil>(92 :: rat) / of_nat (3 * 1)\<rceil> = 31" by (simp only: nat_numeral)
  have "\<lceil>(92 :: rat) / of_nat (3 * 10)\<rceil> = 4" by (rule ceiling_unique) simp_all
  then show "nat \<lceil>(92 :: rat) / of_nat (3 * 10)\<rceil> = 4" by (simp only: nat_numeral)
  show "nat \<lceil>(92 :: rat) / of_nat (3 * 100)\<rceil> = 1" by (rule height_one) simp
  show "nat \<lceil>(92 :: rat) / of_nat (3 * 4096)\<rceil> = 1" by (rule height_one) simp
qed

lemma verifyIdentifier_all:
  "verifyIdentifier d = (\<forall>i<5. aget d i = aget SMZZL_IDENTIFIER i)"
proof -
  have "length SMZZL_IDENTIFIER = 5" by (simp add: SMZZL_IDENTIFIER_def)
  then show ?thesis
    by (simp only: verifyIdentifier_def list_all_iff set_upt) auto
qed

lemma verifyIdentifier_iff: "verifyIdentifier d = (take 5 d = SMZZL_IDENTIFIER)"
proof
  have lid: "length SMZZL_IDENTIFIER = 5" by (simp add: SMZZL_IDENTIFIER_def)
  {
    assume v: "verifyIdentifier d"
    then have a: "aget d i = aget SMZZL_IDENTIFIER i" if "i < 5" for i
      using that by (simp add: verifyIdentifier_all)
    from a [of 4] lid have len: "4 < length d" by (simp add: aget_def split: if_splits)
    show "take 5 d = SMZZL_IDENTIFIER"
    proof (rule nth_equalityI)
      show "length (take 5 d) = length SMZZL_IDENTIFIER" using len lid by simp
      fix i assume "i < length (take 5 d)"
      then have i: "i < 5" by simp
      with a [of i] len lid show "take 5 d ! i = SMZZL_IDENTIFIER ! i"
        by (simp add: aget_def)
    qed
  }
  {
    assume t: "take 5 d = SMZZL_IDENTIFIER"
    then have "length (take 5 d) = 5" using lid by simp
    then have len: "4 < length d" by simp
    have "aget d i = aget SMZZL_IDENTIFIER i" if i: "i < 5" for i
    proof -
      have "d ! i = take 5 d ! i" using i by simp
      with t i len lid show ?thesis by (simp add: aget_def)
    qed
    then show "verifyIdentifier d" by (simp add: verifyIdentifier_all)
  }
qed

lemma decodeHeader_version: "aget d 5 \<noteq> Some 3 \<Longrightarrow> decodeHeader d = None"
proof -
  assume v: "aget d 5 \<noteq> Some 3"
  have "aget (take 1 (drop 5 d)) 0 = aget d 5"
    by (auto simp: aget_def)
  moreover have "aget SMZZL_VERSION 0 = Some 3" by (simp add: SMZZL_VERSION_def aget_def)
  moreover have "length SMZZL_IDENTIFIER = 5" "length SMZZL_VERSION = 1"
    by (simp_all add: SMZZL_IDENTIFIER_def SMZZL_VERSION_def)
  ultimately show ?thesis
    using v unfolding decodeHeader_def readForward_eq Let_def prod.case
    by (simp del: One_nat_def)
qed


section \<open>The pipeline on a well-formed container\<close>

lemma subarray_from_nat: "subarray_from a (int n) = drop n a"
  by (simp add: subarray_from_def rel_index_def min_def)

lemma decryptInput_layout:
  assumes lens: "length nonce = 16" "length tg = 16" "length key = 32"
    and pad: "92 + length pad = hh * 3 * wd"
    and hdr: "headerHeight hdr = Some hh" "w hdr = Some wd" "tag hdr = tg"
  shows "decryptInput (header_block usePw wd ht nonce tg key hh @ pad @ body) hdr = Inr (body @ tg)"
proof -
  define H where "H = header_block usePw wd ht nonce tg key hh"
  have lH: "length H = 92" unfolding H_def using lens by (rule length_header_block)
  define rgb where "rgb = H @ pad @ body"
  have lrgb: "length rgb = hh * 3 * wd + length body"
    using pad lH by (simp add: rgb_def)
  have dl: "int (length rgb) - int (hh * 3 * wd) + int TAG_LENGTH = int (length body + 16)"
    using lrgb by (simp add: TAG_LENGTH_def)
  have enc: "subarray_from rgb (int (hh * 3 * wd)) = body"
    unfolding subarray_from_nat using pad lH by (simp add: rgb_def)
  have s1: "ta_set (replicate (length body + 16) 0) body 0 = Inr (body @ replicate 16 0)"
    by (simp add: ta_set_def replicate_add [symmetric])
  have s2: "ta_set (body @ replicate 16 0) tg (length body) = Inr (body @ tg)"
    using lens(2) by (simp add: ta_set_def)
  have n: "nat (int (length body) + 16) = length body + 16" by linarith
  show ?thesis
    unfolding decryptInput_def H_def [symmetric] rgb_def [symmetric] hdr Let_def
      option.case prod.case dl enc
    using s1 s2 n by simp
qed


lemma clamp8_unat: "map (clamp8 \<circ> unat) bs = bs" "map clamp8 (map unat bs) = bs"
proof -
  have "clamp8 (unat b) = b" for b :: byte
  proof -
    have "unat b < 256" using unsigned_less [of b] by simp
    then have "min (unat b) 255 = unat b" by simp
    then show ?thesis by (simp add: clamp8_def)
  qed
  then show "map (clamp8 \<circ> unat) bs = bs" by (simp add: map_idI)
  then show "map clamp8 (map unat bs) = bs" by simp
qed

lemma drop_insert_alpha: "3 dvd length xs \<Longrightarrow> drop_every_4th (insert_alpha xs) = xs"
proof (induction xs rule: insert_alpha.induct)
  case (1 r g b rest)
  have "length (r # g # b # rest) = 3 + length rest" by simp
  with "1.prems" have "3 dvd 3 + length rest" by (simp only:)
  then have "3 dvd length rest" by (simp only: dvd_add_triv_left_iff)
  with 1 show ?case by simp
qed (auto dest: dvd_imp_le)

lemma toRGB_toRGBA: "3 dvd length xs \<Longrightarrow> toRGB (toRGBA xs) = xs"
proof -
  assume d: "3 dvd length xs"
  then have t3: "rgba_tail xs = []"
    using length_rgba_tail [of xs] by (simp add: mod_eq_0_iff_dvd)
  then have a: "toRGBA xs = insert_alpha xs" by (simp add: toRGBA_eq)
  have "4 dvd length (insert_alpha xs)" by (simp add: length_insert_alpha)
  then have "rgb_tail (insert_alpha xs) = []"
    using length_rgb_tail [of "insert_alpha xs"] by (simp add: mod_eq_0_iff_dvd)
  then show ?thesis using d by (simp add: a toRGB_eq drop_insert_alpha)
qed

lemma decrypt_layout:
  assumes png: "getImageDataPNG c b = Some (cty, a1, a2, header_block usePw wd ht nonce tg key hh @ pad @ body)"
    and lens: "length nonce = 16" "length tg = 16" "length key = 32"
    and bounds: "wd < 2 ^ 32" "ht < 2 ^ 32" "hh < 2 ^ 32"
    and pad: "92 + length pad = hh * 3 * wd"
    and hdr: "hdr = \<lparr>signiture = SMZZL_IDENTIFIER, version = 3, usePassword = usePw,
                  w = Some wd, h = Some ht, iv = nonce, tag = tg, keyBytes = key,
                  headerHeight = Some hh, footerHeight = Some 0, areaDataLength = Some 0\<rparr>"
  shows "decrypt c (FileOrBlob b) pw =
     (case decryptKey c hdr pw of
        Inl ended \<Rightarrow> ended
      | Inr kb \<Rightarrow>
     (case importKey c kb of
        None \<Rightarrow> failure (CryptoError ''import key'')
      | Some k \<Rightarrow>
     (case aead_decrypt c k nonce (TAG_LENGTH * 8) (body @ tg) of
        None \<Rightarrow> failure (CryptoError ''decrypt'')
      | Some p \<Rightarrow>
     (case png_encode c \<lparr>width = Some wd, height = Some ht, depth = 8,
                           colorType = TRUE_COLOR_WITH_ALPHA,
                           data = map unat (toRGBA p)\<rparr> of
        None \<Rightarrow> failure (EncodingError ''png'')
      | Some blob \<Rightarrow> success blob))))"
proof -
  define rgb where "rgb = header_block usePw wd ht nonce tg key hh @ pad @ body"
  have t5: "take 5 rgb = SMZZL_IDENTIFIER"
    by (simp add: rgb_def header_block_def SMZZL_IDENTIFIER_def)
  then have vi: "verifyIdentifier rgb" by (simp only: verifyIdentifier_iff)
  have dh: "decodeHeader rgb = Some hdr"
    unfolding rgb_def hdr using lens bounds by (rule decodeHeader_block)
  have di: "decryptInput rgb hdr = Inr (body @ tg)"
    unfolding rgb_def using lens pad by (rule decryptInput_layout) (simp_all add: hdr)
  have f: "iv hdr = nonce" "w hdr = Some wd" "h hdr = Some ht" by (simp_all add: hdr)
  show ?thesis
    unfolding decrypt_def js_value.case png [folded rgb_def] option.case prod.case
    by (simp add: vi dh di f Let_def split: sum.splits option.splits)
qed


lemma encodeHeader_Inr_served:
  assumes enc: "encodeHeader wd ht nonce tg usePw kb g = Inr r"
  shows "(usePw \<longrightarrow> \<not> refuses g KEY_LENGTH) \<and>
         \<not> refuses g (nat \<lceil>(92 :: rat) / of_nat (3 * wd)\<rceil> * (3 * wd)) \<and> 0 < wd"
proof -
  define fa :: "byte list" where
    "fa = [ucast (signed_drop_bit 8 (if usePw then 0x8000 else 0x0000 :: 32 word)),
           ucast ((if usePw then 0x8000 else 0x0000 :: 32 word) AND 255)]"
  define r1 where "r1 = setForward_all (replicate HEADER_MINIMUM_LENGTH 0, 0)
                [SMZZL_IDENTIFIER, SMZZL_VERSION, fa, encodeUint wd, encodeUint ht, nonce, tg]"
  define r2 where "r2 = (if usePw then getRandomValues KEY_LENGTH g else Inr (kb, g))"
  note enc' = enc [unfolded encodeHeader_def Let_def, folded fa_def, folded r1_def r2_def]
  obtain st1 where st1: "r1 = Inr st1" using enc' by (cases r1) simp_all
  obtain key g1 where k: "r2 = Inr (key, g1)" using enc' st1 by (cases r2) auto
  have sk: "usePw \<longrightarrow> \<not> refuses g KEY_LENGTH"
    using k by (auto simp: r2_def getRandomValues_def split: if_splits)
  have rf: "refuses g1 = refuses g"
    using k refuses_getRandomValues [of KEY_LENGTH g key g1] by (auto simp: r2_def split: if_splits)
  define r3 where "r3 = setForward_all st1
                   [key, replicate NUMBER_LENGTH 0, replicate NUMBER_LENGTH 0, encodeUint 0]"
  note enc2 = enc' [unfolded st1 k sum.case prod.case, folded r3_def]
  obtain st2 where st2: "r3 = Inr st2" using enc2 by (cases r3) simp_all
  have w0: "3 * wd \<noteq> 0" using enc2 st2 by (auto split: if_splits)
  define hh where "hh = nat \<lceil>(of_nat (HEADER_MINIMUM_LENGTH + 0) :: rat) / of_nat (3 * wd)\<rceil>"
  define r4 where "r4 = ta_set (fst st2) (encodeUint hh) HEADERHEIGHT_INDEX"
  note enc3 = enc2 [unfolded st2 sum.case, folded hh_def, folded r4_def]
  obtain md where md: "r4 = Inr md" using enc3 w0 by (cases r4) simp_all
  have "\<not> refuses g1 (hh * (3 * wd))"
  proof
    assume "refuses g1 (hh * (3 * wd))"
    then have "getRandomValues (hh * (3 * wd)) g1 = Inl QuotaExceededError"
      by (simp add: getRandomValues_def)
    with enc3 w0 md show False by simp
  qed
  with rf sk w0 show ?thesis by (simp add: hh_def HEADER_MINIMUM_LENGTH_def)
qed


lemma splitCiphertext_eq:
  "length ct = n + 16 \<Longrightarrow> splitCiphertext ct TAG_LENGTH = (drop n ct, take n ct)"
proof -
  assume l: "length ct = n + 16"
  then have i: "int (length ct) - int TAG_LENGTH = int n" by (simp add: TAG_LENGTH_def)
  have "subarray ct 0 (int n) = take n ct"
    using l by (simp add: subarray_def rel_index_def Let_def)
  then show ?thesis
    unfolding splitCiphertext_def Let_def i subarray_from_nat by simp
qed

lemma encryptKey_not_success: "encryptKey c pw g = Inl out \<Longrightarrow> out \<noteq> success blob"
  by (auto simp: encryptKey_def failure_def success_def split: if_splits option.splits sum.splits)

lemma encrypt_success:
  assumes enc: "encrypt c img pw g = success blob"
    and img: "getImageDataCanvas c img = Inr (wd, ht, px)"
  obtains kb g1 nonce ct g2 headerData hh g3 where
    "encryptKey c pw g = Inr (kb, g1)"
    "encryptData c kb (toRGB px) g1 = Some (nonce, ct, g2)"
    "encodeHeader wd ht nonce (fst (splitCiphertext ct TAG_LENGTH)) (nonempty_string pw) kb g2
       = Inr ((headerData, hh), g3)"
    "png_encode c \<lparr>width = Some wd, height = Some (ht + hh), depth = 8,
                       colorType = TRUE_COLOR_WITH_ALPHA,
                       data = map unat (toRGBA (headerData @ snd (splitCiphertext ct TAG_LENGTH)))\<rparr>
       = Some blob"
proof -
  note e0 = enc [unfolded encrypt_def img sum.case prod.case Let_def]
  obtain kb g1 where k: "encryptKey c pw g = Inr (kb, g1)"
    using e0 encryptKey_not_success [of c pw g _ blob] by (cases "encryptKey c pw g") auto
  note e1 = e0 [unfolded k sum.case prod.case]
  obtain nonce ct g2 where d: "encryptData c kb (toRGB px) g1 = Some (nonce, ct, g2)"
    using e1 by (cases "encryptData c kb (toRGB px) g1") (auto simp: failure_def success_def)
  obtain tg encrypted where sp: "splitCiphertext ct TAG_LENGTH = (tg, encrypted)"
    by (cases "splitCiphertext ct TAG_LENGTH")
  note e2 = e1 [unfolded d option.case prod.case sp]
  obtain headerData hh g3 where
    h: "encodeHeader wd ht nonce tg (nonempty_string pw) kb g2 = Inr ((headerData, hh), g3)"
    using e2 by (cases "encodeHeader wd ht nonce tg (nonempty_string pw) kb g2")
      (auto simp: success_def)
  note e3 = e2 [unfolded h sum.case prod.case]
  have p: "png_encode c \<lparr>width = Some wd, height = Some (ht + hh), depth = 8,
                       colorType = TRUE_COLOR_WITH_ALPHA,
                       data = map unat (toRGBA (headerData @ encrypted))\<rparr> = Some blob"
    using e3 by (auto simp: success_def failure_def split: option.splits)
  from k d h p sp that show thesis by simp
qed


lemma length_toRGB_pixels: "length px = 4 * wd * ht \<Longrightarrow> length (toRGB px) = 3 * wd * ht"
  using toRGB_nth_char [of px] by simp

lemma encryptData_parts:
  assumes "encryptData c kb p g1 = Some (nonce, ct, g2)"
  obtains key where "importKey c kb = Some key"
    "getRandomValues IV_LENGTH g1 = Inr (nonce, g2)"
    "aead_encrypt c key nonce (TAG_LENGTH * 8) p = Some ct"
  using assms
  by (auto simp: encryptData_def split: option.splits sum.splits)

lemma encrypt_container:
  assumes dims: "length px = 4 * wd * ht"
    and img: "getImageDataCanvas c img = Inr (wd, ht, px)"
    and enc: "encrypt c img pw g = success blob"
    and aead_len: "\<forall>k n p x. aead_encrypt c k n (TAG_LENGTH * 8) p = Some x \<longrightarrow>
                     length x = length p + TAG_LENGTH"
    and png_inv: "\<forall>m b. png_encode c m = Some b \<longrightarrow> png_decode c b = Some m"
  obtains kb g1 key nonce ct g2 stored pad hh where
    "encryptKey c pw g = Inr (kb, g1)"
    "encryptData c kb (toRGB px) g1 = Some (nonce, ct, g2)"
    "importKey c kb = Some key"
    "aead_encrypt c key nonce (TAG_LENGTH * 8) (toRGB px) = Some ct"
    "length nonce = 16" "length ct = 3 * wd * ht + 16" "length stored = 32"
    "hh = nat \<lceil>(92 :: rat) / of_nat (3 * wd)\<rceil>" "92 + length pad = hh * 3 * wd"
    "0 < wd"
    "\<not> nonempty_string pw \<longrightarrow> stored = kb"
    "getImageDataPNG c blob =
       Some (TRUE_COLOR_WITH_ALPHA, Some wd, Some (ht + hh),
             header_block (nonempty_string pw) wd ht nonce (drop (3 * wd * ht) ct) stored hh @
             pad @ take (3 * wd * ht) ct)"
proof -
  define n where "n = 3 * wd * ht"
  have lp: "length (toRGB px) = n" unfolding n_def using dims by (rule length_toRGB_pixels)
  from enc img obtain kb g1 nonce ct g2 headerData hh' g3 where
    k: "encryptKey c pw g = Inr (kb, g1)"
    and d: "encryptData c kb (toRGB px) g1 = Some (nonce, ct, g2)"
    and h: "encodeHeader wd ht nonce (fst (splitCiphertext ct TAG_LENGTH)) (nonempty_string pw) kb g2
             = Inr ((headerData, hh'), g3)"
    and p: "png_encode c \<lparr>width = Some wd, height = Some (ht + hh'), depth = 8,
                       colorType = TRUE_COLOR_WITH_ALPHA,
                       data = map unat (toRGBA (headerData @ snd (splitCiphertext ct TAG_LENGTH)))\<rparr>
             = Some blob"
    by (rule encrypt_success)
  from d obtain key where ik: "importKey c kb = Some key"
    and rn: "getRandomValues IV_LENGTH g1 = Inr (nonce, g2)"
    and ae: "aead_encrypt c key nonce (TAG_LENGTH * 8) (toRGB px) = Some ct"
    by (rule encryptData_parts)
  have ln: "length nonce = 16" using length_getRandomValues [OF rn] by (simp add: IV_LENGTH_def)
  have lc: "length ct = n + 16" using aead_len ae lp by (simp add: TAG_LENGTH_def)
  have sp: "splitCiphertext ct TAG_LENGTH = (drop n ct, take n ct)"
    using lc by (rule splitCiphertext_eq)
  define tg where "tg = drop n ct"
  have ltg: "length tg = 16" using lc by (simp add: tg_def)
  note h' = h [unfolded sp fst_conv, folded tg_def]
  define hh where "hh = nat \<lceil>(92 :: rat) / of_nat (3 * wd)\<rceil>"
  from encodeHeader_Inr_served [OF h'] have
    sk: "nonempty_string pw \<longrightarrow> \<not> refuses g2 KEY_LENGTH"
    and sr: "\<not> refuses g2 (hh * (3 * wd))" and w0: "0 < wd"
    by (simp_all add: hh_def)
  have lkb: "\<not> nonempty_string pw \<longrightarrow> length kb = 32"
    using k length_getRandomValues [of KEY_LENGTH g kb g1]
    by (auto simp: encryptKey_def KEY_LENGTH_def split: if_splits option.splits sum.splits)
  obtain stored gs where st: "if nonempty_string pw then getRandomValues KEY_LENGTH g2 = Inr (stored, gs)
                              else stored = kb \<and> gs = g2 \<and> length kb = 32"
  proof (cases "nonempty_string pw")
    case True
    with sk obtain bs g' where "getRandomValues KEY_LENGTH g2 = Inr (bs, g')"
      using getRandomValues_served by blast
    with True that show thesis by simp
  next
    case False
    with lkb that show thesis by simp
  qed
  have lst: "length stored = 32"
    using st length_getRandomValues [of KEY_LENGTH g2 stored gs]
    by (auto simp: KEY_LENGTH_def split: if_splits)
  have rg: "refuses gs = refuses g2"
    using st refuses_getRandomValues [of KEY_LENGTH g2 stored gs] by (auto split: if_splits)
  with sr obtain rnd g4 where rnd: "getRandomValues (hh * (3 * wd)) gs = Inr (rnd, g4)"
    using getRandomValues_served by metis
  have ok: "encodeHeader wd ht nonce tg (nonempty_string pw) kb g2 =
              Inr ((header_block (nonempty_string pw) wd ht nonce tg stored hh @ drop 92 rnd, hh), g4)"
    using w0 ln ltg st hh_def rnd by (rule encodeHeader_ok)
  with h' have hd: "headerData = header_block (nonempty_string pw) wd ht nonce tg stored hh @ drop 92 rnd"
    and hheq: "hh' = hh" by auto
  have lr: "length rnd = hh * (3 * wd)" using rnd by (rule length_getRandomValues)
  have fit: "92 \<le> length rnd" using ceil_fits [of "3 * wd" 92] w0 by (simp add: lr hh_def)
  then have lpad: "92 + length (drop 92 rnd) = hh * 3 * wd" using lr by simp
  define rgb where "rgb = header_block (nonempty_string pw) wd ht nonce tg stored hh @ drop 92 rnd @ take n ct"
  have lrgb: "length rgb = hh * 3 * wd + n"
    using length_header_block [OF ln ltg lst] lpad lc by (simp add: rgb_def)
  have "3 dvd length rgb" unfolding lrgb n_def by (simp add: mult.assoc)
  then have rt: "toRGB (toRGBA rgb) = rgb" by (rule toRGB_toRGBA)
  from p png_inv have "png_decode c blob =
      Some \<lparr>width = Some wd, height = Some (ht + hh), depth = 8,
             colorType = TRUE_COLOR_WITH_ALPHA, data = map unat (toRGBA rgb)\<rparr>"
    by (simp add: sp hd hheq rgb_def)
  then have g: "getImageDataPNG c blob = Some (TRUE_COLOR_WITH_ALPHA, Some wd, Some (ht + hh), rgb)"
    by (simp add: getImageDataPNG_def Let_def clamp8_unat rt)
  have nk: "\<not> nonempty_string pw \<longrightarrow> stored = kb" using st by simp
  show thesis
    using that [OF k d ik ae ln lc [unfolded n_def] lst hh_def lpad w0 nk]
      g [unfolded rgb_def tg_def n_def] by simp
qed


lemma encryptKey_refuses: "encryptKey c pw g = Inr (kb, g1) \<Longrightarrow> refuses g1 = refuses g"
  using refuses_getRandomValues [of KEY_LENGTH g kb g1]
  by (auto simp: encryptKey_def split: if_splits option.splits sum.splits)

lemma encryptKey_length:
  "encryptKey c pw g = Inr (kb, g1) \<Longrightarrow> \<not> nonempty_string pw \<Longrightarrow> length kb = 32"
  using length_getRandomValues [of KEY_LENGTH g kb g1]
  by (auto simp: encryptKey_def KEY_LENGTH_def split: if_splits option.splits sum.splits)




lemma crypto_failure_simps:
  "crypto_failure (failure (CryptoError reason))"
  by (simp add: failure_def)



lemma canvas_image:
  "img = ImageElement wd ht px \<or> (\<exists>b. img = FileOrBlob b \<and> loadImage c b = Some (wd, ht, px)) \<Longrightarrow>
   getImageDataCanvas c img = Inr (wd, ht, px)"
  by (auto simp: getImageDataCanvas_def)

lemma getHash_digest:
  "digest c (textEncode c s) = Some d \<Longrightarrow> length d = 32 \<Longrightarrow> getHash c s KEY_LENGTH = Some d"
  by (simp add: getHash_def subarray_def rel_index_def KEY_LENGTH_def)

lemma encryptKey_total:
  assumes hash: "nonempty_string pw \<longrightarrow>
                   (\<exists>d. digest c (textEncode c (pw_string pw)) = Some d \<and> length d = 32)"
    and srv: "\<not> refuses g KEY_LENGTH"
  shows "\<exists>kb g1. encryptKey c pw g = Inr (kb, g1) \<and> length kb = 32"
proof (cases "nonempty_string pw")
  case True
  with hash obtain d where "digest c (textEncode c (pw_string pw)) = Some d" "length d = 32"
    by blast
  then have "getHash c (pw_string pw) KEY_LENGTH = Some d" by (rule getHash_digest)
  with True \<open>length d = 32\<close> show ?thesis by (simp add: encryptKey_def)
next
  case False
  from srv obtain kb g1 where r: "getRandomValues KEY_LENGTH g = Inr (kb, g1)"
    using getRandomValues_served by blast
  from length_getRandomValues [OF r] have "length kb = 32" by (simp add: KEY_LENGTH_def)
  with False r show ?thesis by (simp add: encryptKey_def)
qed

lemma encryptData_total:
  assumes keys: "\<forall>kb. length kb = KEY_LENGTH \<longrightarrow> importKey c kb \<noteq> None"
    and total: "\<forall>k n p. aead_encrypt c k n (TAG_LENGTH * 8) p \<noteq> None"
    and lkb: "length kb = 32"
    and srv: "\<not> refuses g1 IV_LENGTH"
  shows "\<exists>nonce ct g2. encryptData c kb p g1 = Some (nonce, ct, g2)"
proof -
  from keys lkb obtain key where ik: "importKey c kb = Some key"
    by (auto simp: KEY_LENGTH_def)
  from srv obtain nonce g2 where r: "getRandomValues IV_LENGTH g1 = Inr (nonce, g2)"
    using getRandomValues_served by blast
  from total obtain ct where "aead_encrypt c key nonce (TAG_LENGTH * 8) p = Some ct" by blast
  with ik r show ?thesis by (simp add: encryptData_def)
qed

lemma length_toRGBA_pixels: "length xs = 3 * k \<Longrightarrow> length (toRGBA xs) = 4 * k"
  using toRGBA_nth_char [of xs] by simp

text \<open>
  \<^verbatim>\<open>encrypt\<close> from step (4) on, when key, nonce and ciphertext are there: the outcome
  hangs on the request for the random header rows and on the PNG encoder.
\<close>

lemma encrypt_from_header:
  assumes img: "getImageDataCanvas c img = Inr (wd, ht, px)" and w0: "0 < wd"
    and dims: "length px = 4 * wd * ht"
    and k: "encryptKey c pw g = Inr (kb, g1)"
    and d: "encryptData c kb (toRGB px) g1 = Some (nonce, ct, g2)"
    and lc: "length ct = length (toRGB px) + 16"
    and srv: "\<not> refuses g KEY_LENGTH"
    and hh: "hh = nat \<lceil>(92 :: rat) / of_nat (3 * wd)\<rceil>"
  shows "(refuses g (hh * (3 * wd)) \<longrightarrow> encrypt c img pw g = Threw QuotaExceededError) \<and>
         (\<not> refuses g (hh * (3 * wd)) \<longrightarrow>
            (\<exists>rgb. length rgb = 3 * (wd * (ht + hh)) \<and>
               encrypt c img pw g =
                 (case png_encode c \<lparr>width = Some wd, height = Some (ht + hh), depth = 8,
                                       colorType = TRUE_COLOR_WITH_ALPHA,
                                       data = map unat (toRGBA rgb)\<rparr> of
                    None \<Rightarrow> failure (EncodingError ''png'')
                  | Some blob \<Rightarrow> success blob)))"
proof -
  define n where "n = length (toRGB px)"
  have ln3: "n = 3 * wd * ht" unfolding n_def using dims by (rule length_toRGB_pixels)
  from d obtain key where rn: "getRandomValues IV_LENGTH g1 = Inr (nonce, g2)"
    by (rule encryptData_parts)
  have ln: "length nonce = 16" using length_getRandomValues [OF rn] by (simp add: IV_LENGTH_def)
  have r2: "refuses g2 = refuses g"
    using refuses_getRandomValues [OF rn] encryptKey_refuses [OF k] by simp
  have sp: "splitCiphertext ct TAG_LENGTH = (drop n ct, take n ct)"
    using lc unfolding n_def by (rule splitCiphertext_eq)
  have ltg: "length (drop n ct) = 16" using lc by (simp add: n_def)
  from srv r2 obtain decoy gd where dec: "getRandomValues KEY_LENGTH g2 = Inr (decoy, gd)"
    using getRandomValues_served by metis
  define stored where "stored = (if nonempty_string pw then decoy else kb)"
  define gs where "gs = (if nonempty_string pw then gd else g2)"
  have st: "if nonempty_string pw then getRandomValues KEY_LENGTH g2 = Inr (stored, gs)
            else stored = kb \<and> gs = g2 \<and> length kb = 32"
    using dec encryptKey_length [OF k] by (simp add: stored_def gs_def)
  have lst: "length stored = 32"
    using st length_getRandomValues [of KEY_LENGTH g2 stored gs]
    by (auto simp: KEY_LENGTH_def split: if_splits)
  have rs: "refuses gs = refuses g"
    using refuses_getRandomValues [OF dec] r2 by (simp add: gs_def)
  note fill = encodeHeader_fill [OF w0 ln ltg st hh, of ht]
  have refused: "encrypt c img pw g = Threw QuotaExceededError" if "refuses g (hh * (3 * wd))"
  proof -
    from that rs have "getRandomValues (hh * (3 * wd)) gs = Inl QuotaExceededError"
      by (simp add: getRandomValues_def)
    then have "encodeHeader wd ht nonce (drop n ct) (nonempty_string pw) kb g2 = Inl QuotaExceededError"
      by (simp add: fill)
    then show ?thesis
      unfolding encrypt_def img sum.case prod.case Let_def k d option.case sp by simp
  qed
  have served: "\<exists>rgb. length rgb = 3 * (wd * (ht + hh)) \<and>
               encrypt c img pw g =
                 (case png_encode c \<lparr>width = Some wd, height = Some (ht + hh), depth = 8,
                                       colorType = TRUE_COLOR_WITH_ALPHA,
                                       data = map unat (toRGBA rgb)\<rparr> of
                    None \<Rightarrow> failure (EncodingError ''png'')
                  | Some blob \<Rightarrow> success blob)"
    if "\<not> refuses g (hh * (3 * wd))"
  proof -
    from that rs obtain rnd g4 where rnd: "getRandomValues (hh * (3 * wd)) gs = Inr (rnd, g4)"
      using getRandomValues_served by metis
    define rgb where "rgb = (header_block (nonempty_string pw) wd ht nonce (drop n ct) stored hh
                               @ drop 92 rnd) @ take n ct"
    have ok: "encodeHeader wd ht nonce (drop n ct) (nonempty_string pw) kb g2 =
              Inr ((header_block (nonempty_string pw) wd ht nonce (drop n ct) stored hh @ drop 92 rnd, hh), g4)"
      by (simp add: fill rnd)
    have lr: "length rnd = hh * (3 * wd)" using rnd by (rule length_getRandomValues)
    have fit: "92 \<le> length rnd" using ceil_fits [of "3 * wd" 92] w0 by (simp add: lr hh)
    have "length rgb = hh * (3 * wd) + n"
      using length_header_block [OF ln ltg lst] fit lr lc by (simp add: rgb_def n_def)
    then have lrgb: "length rgb = 3 * (wd * (ht + hh))"
      by (simp add: ln3 algebra_simps)
    have "encrypt c img pw g =
                 (case png_encode c \<lparr>width = Some wd, height = Some (ht + hh), depth = 8,
                                       colorType = TRUE_COLOR_WITH_ALPHA,
                                       data = map unat (toRGBA rgb)\<rparr> of
                    None \<Rightarrow> failure (EncodingError ''png'')
                  | Some blob \<Rightarrow> success blob)"
      unfolding encrypt_def img sum.case prod.case Let_def k d option.case sp ok rgb_def
      by simp
    with lrgb show ?thesis by blast
  qed
  from refused served show ?thesis by blast
qed

lemma encrypt_browser:
  assumes img: "getImageDataCanvas c img = Inr (wd, ht, px)" and w0: "0 < wd"
    and dims: "length px = 4 * wd * ht"
    and hash: "nonempty_string pw \<longrightarrow>
                 (\<exists>d. digest c (textEncode c (pw_string pw)) = Some d \<and> length d = 32)"
    and keys: "\<forall>kb. length kb = KEY_LENGTH \<longrightarrow> importKey c kb \<noteq> None"
    and aead_total: "\<forall>k n p. aead_encrypt c k n (TAG_LENGTH * 8) p \<noteq> None"
    and aead_len: "\<forall>k n p x. aead_encrypt c k n (TAG_LENGTH * 8) p = Some x \<longrightarrow>
                     length x = length p + TAG_LENGTH"
    and png_total: "\<forall>w h (d :: byte list). 1 \<le> w \<and> 1 \<le> h \<and> length d = 4 * w * h \<longrightarrow>
                      png_encode c \<lparr>width = Some w, height = Some h, depth = 8,
                                      colorType = TRUE_COLOR_WITH_ALPHA, data = map unat d\<rparr> \<noteq> None"
  shows "(wd \<le> 21845 \<longrightarrow> (\<exists>blob. encrypt c img pw (browser_rng src) = success blob)) \<and>
         (21845 < wd \<longrightarrow> encrypt c img pw (browser_rng src) = Threw QuotaExceededError)"
proof -
  let ?g = "browser_rng src"
  define hh where "hh = nat \<lceil>(92 :: rat) / of_nat (3 * wd)\<rceil>"
  have s32: "\<not> refuses ?g KEY_LENGTH" by (rule browser_small) (simp add: KEY_LENGTH_def)
  from encryptKey_total [OF hash s32] obtain kb g1 where
    k: "encryptKey c pw ?g = Inr (kb, g1)" and lkb: "length kb = 32"
    by blast
  have "\<not> refuses ?g IV_LENGTH" by (rule browser_small) (simp add: IV_LENGTH_def)
  then have "\<not> refuses g1 IV_LENGTH" by (simp add: encryptKey_refuses [OF k])
  from encryptData_total [OF keys aead_total lkb this] obtain nonce ct g2 where
    d: "encryptData c kb (toRGB px) g1 = Some (nonce, ct, g2)"
    by blast
  from d obtain key where "aead_encrypt c key nonce (TAG_LENGTH * 8) (toRGB px) = Some ct"
    by (rule encryptData_parts)
  with aead_len have lc: "length ct = length (toRGB px) + 16" by (simp add: TAG_LENGTH_def)
  note step = encrypt_from_header [OF img w0 dims k d lc s32 hh_def]
  have a: "\<exists>blob. encrypt c img pw ?g = success blob" if "wd \<le> 21845"
  proof -
    from that have "\<not> refuses ?g (hh * (3 * wd))" unfolding hh_def by (rule browser_serves)
    with step obtain rgb where lrgb: "length rgb = 3 * (wd * (ht + hh))"
      and e: "encrypt c img pw ?g =
                 (case png_encode c \<lparr>width = Some wd, height = Some (ht + hh), depth = 8,
                                       colorType = TRUE_COLOR_WITH_ALPHA,
                                       data = map unat (toRGBA rgb)\<rparr> of
                    None \<Rightarrow> failure (EncodingError ''png'')
                  | Some blob \<Rightarrow> success blob)"
      by blast
    have l4: "length (toRGBA rgb) = 4 * wd * (ht + hh)"
      using length_toRGBA_pixels [OF lrgb] by (simp add: mult.assoc)
    have "92 \<le> hh * (3 * wd)" using ceil_fits [of "3 * wd" 92] w0 by (simp add: hh_def)
    then have "1 \<le> hh" by (cases hh) simp_all
    then have h1: "1 \<le> ht + hh" by simp
    from w0 have w1: "1 \<le> wd" by simp
    have "png_encode c \<lparr>width = Some wd, height = Some (ht + hh), depth = 8,
                      colorType = TRUE_COLOR_WITH_ALPHA, data = map unat (toRGBA rgb)\<rparr> \<noteq> None"
      by (rule png_total [THEN spec [where x = wd], THEN spec [where x = "ht + hh"],
            THEN spec [where x = "toRGBA rgb"], THEN mp])
        (simp only: w1 h1 l4 simp_thms)
    then obtain blob where
      "png_encode c \<lparr>width = Some wd, height = Some (ht + hh), depth = 8,
                      colorType = TRUE_COLOR_WITH_ALPHA, data = map unat (toRGBA rgb)\<rparr> = Some blob"
      by blast
    with e have "encrypt c img pw ?g = success blob" by simp
    then show ?thesis ..
  qed
  have b: "encrypt c img pw ?g = Threw QuotaExceededError" if "21845 < wd"
  proof -
    from that have "refuses ?g (hh * (3 * wd))" unfolding hh_def by (rule browser_refuses)
    with step show ?thesis by blast
  qed
  from a b show ?thesis by blast
qed

lemma container_decrypts:
  assumes dims: "wd < 2 ^ 32" "ht < 2 ^ 32" "length px = 4 * wd * ht"
    and img: "getImageDataCanvas c img = Inr (wd, ht, px)"
    and enc: "encrypt c img pw g = success container"
    and same: "pw' = pw \<or> \<not> nonempty_string pw"
    and png_inv: "\<forall>m b. png_encode c m = Some b \<longrightarrow> png_decode c b = Some m"
    and aead_inv: "\<forall>k n p x. aead_encrypt c k n (TAG_LENGTH * 8) p = Some x \<longrightarrow>
                     aead_decrypt c k n (TAG_LENGTH * 8) x = Some p \<and>
                     length x = length p + TAG_LENGTH"
    and png_ok: "png_encode c \<lparr>width = Some wd, height = Some ht, depth = 8,
                                colorType = TRUE_COLOR_WITH_ALPHA,
                                data = map unat (toRGBA (toRGB px))\<rparr> = Some original"
  shows "decrypt c (FileOrBlob container) pw' = success original"
proof -
  have al: "\<forall>k n p x. aead_encrypt c k n (TAG_LENGTH * 8) p = Some x \<longrightarrow>
              length x = length p + TAG_LENGTH"
    using aead_inv by blast
  from dims(3) img enc al png_inv
  obtain kb g1 key nonce ct g2 stored pad hh where
    k: "encryptKey c pw g = Inr (kb, g1)"
    and ik: "importKey c kb = Some key"
    and ae: "aead_encrypt c key nonce (TAG_LENGTH * 8) (toRGB px) = Some ct"
    and ln: "length nonce = 16" and lc: "length ct = 3 * wd * ht + 16" and ls: "length stored = 32"
    and hh: "hh = nat \<lceil>(92 :: rat) / of_nat (3 * wd)\<rceil>" and lpad: "92 + length pad = hh * 3 * wd"
    and nk: "\<not> nonempty_string pw \<longrightarrow> stored = kb"
    and g: "getImageDataPNG c container =
       Some (TRUE_COLOR_WITH_ALPHA, Some wd, Some (ht + hh),
             header_block (nonempty_string pw) wd ht nonce (drop (3 * wd * ht) ct) stored hh @
             pad @ take (3 * wd * ht) ct)"
    by (rule encrypt_container)
  define hdr where "hdr = \<lparr>signiture = SMZZL_IDENTIFIER, version = 3, usePassword = nonempty_string pw,
                  w = Some wd, h = Some ht, iv = nonce, tag = drop (3 * wd * ht) ct, keyBytes = stored,
                  headerHeight = Some hh, footerHeight = Some 0, areaDataLength = Some 0\<rparr>"
  have ltg: "length (drop (3 * wd * ht) ct) = 16" using lc by simp
  have hb: "hh < 2 ^ 32" using header_height_le [of wd] by (simp add: hh)
  have dk: "decryptKey c hdr pw' = Inr kb"
    using k nk same
    by (auto simp: decryptKey_def encryptKey_def hdr_def split: if_splits option.splits sum.splits)
  have ad: "aead_decrypt c key nonce (TAG_LENGTH * 8) (take (3 * wd * ht) ct @ drop (3 * wd * ht) ct) = Some (toRGB px)"
    using aead_inv ae by simp
  show ?thesis
    unfolding decrypt_layout [OF g ln ltg ls dims(1,2) hb lpad hdr_def] dk sum.case ik option.case ad png_ok
    by simp
qed


section \<open>The example collaborators at work\<close>











lemma length_sample_tag: "length (sample_tag k n) = 16"
  by (simp add: sample_tag_def)

lemma sample_hash: "\<forall>bs. \<exists>d. digest sample_collab bs = Some d \<and> length d = 32"
  by (auto simp: sample_collab_def min_def)

lemma sample_keys: "\<forall>kb. length kb = KEY_LENGTH \<longrightarrow> importKey sample_collab kb \<noteq> None"
  by (simp add: sample_collab_def KEY_LENGTH_def)

lemma sample_aead_total: "\<forall>k n p. aead_encrypt sample_collab k n (TAG_LENGTH * 8) p \<noteq> None"
  by (simp add: sample_collab_def)

lemma sample_aead_inv:
  "\<forall>k n p x. aead_encrypt sample_collab k n (TAG_LENGTH * 8) p = Some x \<longrightarrow>
      aead_decrypt sample_collab k n (TAG_LENGTH * 8) x = Some p \<and>
      length x = length p + TAG_LENGTH"
proof -
  have "map ((\<lambda>b. b - 1) \<circ> (\<lambda>b. b + 1)) p = p" for p :: "byte list"
    by (rule map_idI) simp
  then show ?thesis
    by (auto simp: sample_collab_def length_sample_tag TAG_LENGTH_def)
qed

lemma sample_png_total:
  "\<forall>w h (d :: byte list). 1 \<le> w \<and> 1 \<le> h \<and> length d = 4 * w * h \<longrightarrow>
      png_encode sample_collab \<lparr>width = Some w, height = Some h, depth = 8,
                                 colorType = TRUE_COLOR_WITH_ALPHA, data = map unat d\<rparr> \<noteq> None"
  by (simp add: sample_collab_def)

lemma sample_png_inv:
  "\<forall>m b. png_encode sample_collab m = Some b \<longrightarrow> png_decode sample_collab b = Some m"
  by (simp add: sample_collab_def)

lemma sample_pixels: "toRGBA (toRGB [1, 2, 3, 4, 5, 6, 7, 8]) = [1, 2, 3, 255, 5, 6, 7, 255]"
  by code_simp


section \<open>Claims about pixel packing\<close>

text \<open>
  C8. For every RGBA buffer \<open>x\<close> whose length is a multiple of 4:
  if every alpha byte of \<open>x\<close> is 255 then \<open>toRGBA (toRGB x) = x\<close>; and whatever the
  alpha bytes are, \<open>toRGBA (toRGB x)\<close> has the length of \<open>x\<close>, keeps every R, G and B
  byte of \<open>x\<close> in place and holds 255 at every alpha position.
\<close>

theorem toRGBA_toRGB_roundtrip:
  assumes "4 dvd length x"
  shows "((\<forall>i < length x. i mod 4 = 3 \<longrightarrow> x ! i = 255) \<longrightarrow> toRGBA (toRGB x) = x) \<and>
         length (toRGBA (toRGB x)) = length x \<and>
         (\<forall>i < length x. toRGBA (toRGB x) ! i = (if i mod 4 = 3 then 255 else x ! i))"
proof -
  note char = toRGBA_toRGB_nth [OF assms]
  have "toRGBA (toRGB x) = x" if alpha: "\<forall>i < length x. i mod 4 = 3 \<longrightarrow> x ! i = 255"
  proof (rule nth_equalityI)
    show "length (toRGBA (toRGB x)) = length x" using char by simp
    fix i assume "i < length (toRGBA (toRGB x))"
    with char have i: "i < length x" by simp
    with char have "toRGBA (toRGB x) ! i = (if i mod 4 = 3 then 255 else x ! i)" by simp
    with alpha i show "toRGBA (toRGB x) ! i = x ! i" by simp
  qed
  with char show ?thesis by blast
qed

theorem toRGBA_toRGB_roundtrip_witness:
  "4 dvd length [10, 20, 30, 255, 40, 50, 60, 255 :: byte] \<and>
   [10, 20, 30, 255, 40, 50, 60, 255 :: byte] ! 3 = 255 \<and>
   [10, 20, 30, 255, 40, 50, 60, 255 :: byte] ! 7 = 255 \<and>
   toRGBA (toRGB [10, 20, 30, 255, 40, 50, 60, 255]) = [10, 20, 30, 255, 40, 50, 60, 255]"
proof -
  let ?x = "[10, 20, 30, 255, 40, 50, 60, 255 :: byte]"
  have d: "4 dvd length ?x" by code_simp
  have a: "\<forall>i < length ?x. i mod 4 = 3 \<longrightarrow> ?x ! i = 255"
  proof (intro allI impI)
    fix i assume "i < length ?x" and m: "i mod 4 = 3"
    then have "i < 8" by simp
    then have "i \<in> {0, 1, 2, 3, 4, 5, 6, 7}" by auto
    with m have "i = 3 \<or> i = 7" by auto
    then show "?x ! i = 255" by auto
  qed
  from toRGBA_toRGB_roundtrip [OF d] a have "toRGBA (toRGB ?x) = ?x" by blast
  with d show ?thesis by simp
qed

text \<open>
  C9, as stated, fails where the length is not a whole number of pixels: the pixel count
  \<^verbatim>\<open>array.length / 4\<close> is not floored. A 6-byte input gives 4 bytes from \<open>toRGB\<close>, not
  \<open>6 div 4 * 3 = 3\<close>; a 4-byte input gives 5 bytes from \<open>toRGBA\<close>, not \<open>4 div 3 * 4 = 4\<close>.
\<close>

theorem toRGB_length_counterexample:
  "toRGB [1, 2, 3, 4, 5, 6] = [1, 2, 3, 5] \<and>
   length (toRGB [1, 2, 3, 4, 5, 6]) \<noteq> length [1, 2, 3, 4, 5, 6 :: byte] div 4 * 3 \<and>
   toRGBA [1, 2, 3, 4] = [1, 2, 3, 255, 4] \<and>
   length (toRGBA [1, 2, 3, 4]) \<noteq> length [1, 2, 3, 4 :: byte] div 3 * 4"
proof -
  have a: "toRGB [1, 2, 3, 4, 5, 6] = [1, 2, 3, 5]"
    by code_simp
  have b: "toRGBA [1, 2, 3, 4] = [1, 2, 3, 255, 4]"
    by code_simp
  show ?thesis unfolding a b by simp
qed

text \<open>
  C9, amended. On an input of a whole number of pixels (length a multiple of 4) \<open>toRGB\<close>
  returns the input with every 4th byte dropped, of length \<open>length xs div 4 * 3\<close>; on an
  input whose length is a multiple of 3 \<open>toRGBA\<close> returns the input with 255 inserted
  after every 3 bytes, of length \<open>length ys div 3 * 4\<close>. On any other length the result
  has \<open>3 * length xs div 4\<close> (respectively \<open>4 * length ys div 3\<close>) bytes: the complete
  groups converted as above, followed by all but the last byte of the trailing partial
  group (respectively by the whole trailing partial group).
\<close>

theorem toRGB_toRGBA_shape:
  "toRGB xs = drop_every_4th xs @ rgb_tail xs \<and>
   length (toRGB xs) = 3 * length xs div 4 \<and>
   (4 dvd length xs \<longrightarrow>
      toRGB xs = drop_every_4th xs \<and> length (toRGB xs) = length xs div 4 * 3) \<and>
   toRGBA ys = insert_alpha ys @ rgba_tail ys \<and>
   length (toRGBA ys) = 4 * length ys div 3 \<and>
   (3 dvd length ys \<longrightarrow>
      toRGBA ys = insert_alpha ys \<and> length (toRGBA ys) = length ys div 3 * 4)"
proof -
  have t4: "rgb_tail xs = []" if "4 dvd length xs"
    using that length_rgb_tail [of xs] by (simp add: mod_eq_0_iff_dvd)
  have t3: "rgba_tail ys = []" if "3 dvd length ys"
    using that length_rgba_tail [of ys] by (simp add: mod_eq_0_iff_dvd)
  have l4: "length (toRGB xs) = length xs div 4 * 3" if "4 dvd length xs"
    using t4 [OF that] by (simp add: toRGB_eq length_drop_every_4th)
  have l3: "length (toRGBA ys) = length ys div 3 * 4" if "3 dvd length ys"
    using t3 [OF that] by (simp add: toRGBA_eq length_insert_alpha)
  show ?thesis
    using toRGB_eq [of xs] toRGBA_eq [of ys] toRGB_nth_char [of xs] toRGBA_nth_char [of ys]
      t4 t3 l4 l3
    by simp
qed

theorem toRGB_toRGBA_shape_witness:
  "4 dvd length [1, 2, 3, 4, 5, 6, 7, 8 :: byte] \<and> 3 dvd length [1, 2, 3, 4, 5, 6 :: byte] \<and>
   toRGB [1, 2, 3, 4, 5, 6, 7, 8] = [1, 2, 3, 5, 6, 7] \<and>
   toRGBA [1, 2, 3, 4, 5, 6] = [1, 2, 3, 255, 4, 5, 6, 255]"
proof -
  have d4: "4 dvd length [1, 2, 3, 4, 5, 6, 7, 8 :: byte]" by code_simp
  have d3: "3 dvd length [1, 2, 3, 4, 5, 6 :: byte]" by code_simp
  from toRGB_toRGBA_shape [of "[1, 2, 3, 4, 5, 6, 7, 8]" "[1, 2, 3, 4, 5, 6]"] d4 d3
  have "toRGB [1, 2, 3, 4, 5, 6, 7, 8] = drop_every_4th [1, 2, 3, 4, 5, 6, 7, 8]"
    and "toRGBA [1, 2, 3, 4, 5, 6] = insert_alpha [1, 2, 3, 4, 5, 6]"
    by blast+
  with d4 d3 show ?thesis by simp
qed

section \<open>Claims about the header codec\<close>

text \<open>
  C4. With a browser's random source, for every width \<open>1 \<le> wd \<le> 21845\<close> and fields of
  their fixed sizes (the 92-byte block with no reserved-area payload), \<open>encodeHeader\<close>
  returns \<open>headerHeight = \<lceil>92 / (3 * wd)\<rceil>\<close>, the four bytes at offset 80 of the
  returned buffer are that number (big-endian), and the buffer has exactly
  \<open>headerHeight * 3 * wd\<close> bytes. C4 does not hold of the code for a wider image: one
  header row has more than 65536 bytes, \<^verbatim>\<open>getRandomValues\<close> refuses a request of that
  size, and \<open>encodeHeader\<close> throws instead of returning a buffer.
\<close>

theorem encodeHeader_headerHeight:
  assumes wd: "1 \<le> wd"
    and lens: "length nonce = IV_LENGTH" "length tg = TAG_LENGTH"
      "\<not> usePw \<longrightarrow> length kb = KEY_LENGTH"
  shows "(wd \<le> 21845 \<longrightarrow>
           (\<exists>headerData g'.
              encodeHeader wd ht nonce tg usePw kb (browser_rng src) =
                Inr ((headerData, nat \<lceil>(92 :: rat) / of_nat (3 * wd)\<rceil>), g') \<and>
              take 4 (drop HEADERHEIGHT_INDEX headerData) =
                encodeUint (nat \<lceil>(92 :: rat) / of_nat (3 * wd)\<rceil>) \<and>
              decodeUint (take 4 (drop HEADERHEIGHT_INDEX headerData)) =
                Some (nat \<lceil>(92 :: rat) / of_nat (3 * wd)\<rceil>) \<and>
              length headerData = nat \<lceil>(92 :: rat) / of_nat (3 * wd)\<rceil> * 3 * wd)) \<and>
         (21845 < wd \<longrightarrow>
           (\<exists>e. encodeHeader wd ht nonce tg usePw kb (browser_rng src) = Inl e))"
proof -
  let ?g = "browser_rng src"
  define hh where "hh = nat \<lceil>(92 :: rat) / of_nat (3 * wd)\<rceil>"
  have "\<not> refuses ?g KEY_LENGTH" by (rule browser_small) (simp add: KEY_LENGTH_def)
  then obtain decoy gd where decoy: "getRandomValues KEY_LENGTH ?g = Inr (decoy, gd)"
    using getRandomValues_served by blast
  define key where "key = (if usePw then decoy else kb)"
  define g1 where "g1 = (if usePw then gd else ?g)"
  have r1: "refuses g1 = refuses ?g"
    using refuses_getRandomValues [OF decoy] by (simp add: g1_def)
  have l: "length nonce = 16" "length tg = 16" and lkb: "\<not> usePw \<longrightarrow> length kb = 32"
    using lens by (simp_all add: IV_LENGTH_def TAG_LENGTH_def KEY_LENGTH_def)
  have lkey: "length key = 32"
    using length_getRandomValues [OF decoy] lkb by (simp add: key_def KEY_LENGTH_def)
  have k: "if usePw then getRandomValues KEY_LENGTH ?g = Inr (key, g1)
           else key = kb \<and> g1 = ?g \<and> length kb = 32"
    using decoy lkb by (simp add: key_def g1_def)
  from wd have w0: "0 < wd" by simp
  have served: "\<exists>headerData g'.
              encodeHeader wd ht nonce tg usePw kb ?g = Inr ((headerData, hh), g') \<and>
              take 4 (drop HEADERHEIGHT_INDEX headerData) = encodeUint hh \<and>
              decodeUint (take 4 (drop HEADERHEIGHT_INDEX headerData)) = Some hh \<and>
              length headerData = hh * 3 * wd"
    if small: "wd \<le> 21845"
  proof -
    from small have "\<not> refuses g1 (hh * (3 * wd))"
      unfolding r1 hh_def by (rule browser_serves)
    then obtain rnd g2 where rnd: "getRandomValues (hh * (3 * wd)) g1 = Inr (rnd, g2)"
      using getRandomValues_served by blast
    have enc: "encodeHeader wd ht nonce tg usePw kb ?g =
        Inr ((header_block usePw wd ht nonce tg key hh @ drop 92 rnd, hh), g2)"
      using w0 l k hh_def rnd by (rule encodeHeader_ok)
    have lr: "length rnd = hh * (3 * wd)" using rnd by (rule length_getRandomValues)
    have "92 \<le> length rnd" using ceil_fits [of "3 * wd" 92] w0 by (simp add: lr hh_def)
    then have len: "length (header_block usePw wd ht nonce tg key hh @ drop 92 rnd) = hh * 3 * wd"
      using length_header_block [OF l lkey] lr by simp
    have slot: "take 4 (drop HEADERHEIGHT_INDEX (header_block usePw wd ht nonce tg key hh @ drop 92 rnd))
                  = encodeUint hh"
      unfolding HEADERHEIGHT_INDEX_def using l lkey by (rule header_block_hh)
    have "hh < 2 ^ 32" using header_height_le [of wd] by (simp add: hh_def)
    then have "decodeUint (encodeUint hh) = Some hh" by (rule decodeUint_encodeUint)
    with enc slot len show ?thesis by simp
  qed
  have refused: "\<exists>e. encodeHeader wd ht nonce tg usePw kb ?g = Inl e" if wide: "21845 < wd"
  proof -
    from wide have "refuses g1 (hh * (3 * wd))"
      unfolding r1 hh_def by (rule browser_refuses)
    with w0 l k hh_def have "encodeHeader wd ht nonce tg usePw kb ?g = Inl QuotaExceededError"
      by (rule encodeHeader_refused)
    then show ?thesis ..
  qed
  from served refused show ?thesis unfolding hh_def by blast
qed

theorem encodeHeader_headerHeight_witness:
  "(\<exists>headerData g'.
      encodeHeader 1 7 (replicate 16 1) (replicate 16 2) False (replicate 32 3)
        (browser_rng (\<lambda>i. of_nat i)) = Inr ((headerData, 31), g') \<and>
      length headerData = 93 \<and> take 4 (drop 80 headerData) = [0, 0, 0, 31]) \<and>
   (\<exists>headerData g'.
      encodeHeader 10 7 (replicate 16 1) (replicate 16 2) True []
        (browser_rng (\<lambda>i. of_nat i)) = Inr ((headerData, 4), g') \<and>
      length headerData = 120 \<and> take 4 (drop 80 headerData) = [0, 0, 0, 4]) \<and>
   (\<exists>headerData g'.
      encodeHeader 100 7 (replicate 16 1) (replicate 16 2) False (replicate 32 3)
        (browser_rng (\<lambda>i. of_nat i)) = Inr ((headerData, 1), g') \<and>
      length headerData = 300 \<and> take 4 (drop 80 headerData) = [0, 0, 0, 1]) \<and>
   (\<exists>headerData g'.
      encodeHeader 4096 7 (replicate 16 1) (replicate 16 2) False (replicate 32 3)
        (browser_rng (\<lambda>i. of_nat i)) = Inr ((headerData, 1), g') \<and>
      length headerData = 12288 \<and> take 4 (drop 80 headerData) = [0, 0, 0, 1]) \<and>
   encodeHeader 21846 7 (replicate 16 1) (replicate 16 2) False (replicate 32 3)
     (browser_rng (\<lambda>i. of_nat i)) = Inl QuotaExceededError"
proof -
  let ?g = "browser_rng (\<lambda>i. of_nat i)"
  have l: "length (replicate 16 (1 :: byte)) = IV_LENGTH"
    "length (replicate 16 (2 :: byte)) = TAG_LENGTH"
    by (simp_all add: IV_LENGTH_def TAG_LENGTH_def)
  have k: "\<not> False \<longrightarrow> length (replicate 32 (3 :: byte)) = KEY_LENGTH"
    "\<not> True \<longrightarrow> length ([] :: byte list) = KEY_LENGTH"
    by (simp_all add: KEY_LENGTH_def)
  have e: "encodeUint 31 = [0, 0, 0, 31]" "encodeUint 4 = [0, 0, 0, 4]" "encodeUint 1 = [0, 0, 0, 1]"
    by code_simp+
  have w: "(1 :: nat) \<le> 1" "(1 :: nat) \<le> 10" "(1 :: nat) \<le> 100" "(1 :: nat) \<le> 4096"
    "(1 :: nat) \<le> 21846"
    by simp_all
  have a1: "\<exists>headerData g'.
      encodeHeader 1 7 (replicate 16 1) (replicate 16 2) False (replicate 32 3) ?g
        = Inr ((headerData, 31), g') \<and>
      length headerData = 93 \<and> take 4 (drop 80 headerData) = [0, 0, 0, 31]"
    using encodeHeader_headerHeight [OF w(1) l k(1), where ht = 7 and src = "\<lambda>i. of_nat i",
        unfolded header_heights e HEADERHEIGHT_INDEX_def]
    by auto
  have a2: "\<exists>headerData g'.
      encodeHeader 10 7 (replicate 16 1) (replicate 16 2) True [] ?g
        = Inr ((headerData, 4), g') \<and>
      length headerData = 120 \<and> take 4 (drop 80 headerData) = [0, 0, 0, 4]"
    using encodeHeader_headerHeight [OF w(2) l k(2), where ht = 7 and src = "\<lambda>i. of_nat i",
        unfolded header_heights e HEADERHEIGHT_INDEX_def]
    by auto
  have a3: "\<exists>headerData g'.
      encodeHeader 100 7 (replicate 16 1) (replicate 16 2) False (replicate 32 3) ?g
        = Inr ((headerData, 1), g') \<and>
      length headerData = 300 \<and> take 4 (drop 80 headerData) = [0, 0, 0, 1]"
    using encodeHeader_headerHeight [OF w(3) l k(1), where ht = 7 and src = "\<lambda>i. of_nat i",
        unfolded header_heights e HEADERHEIGHT_INDEX_def]
    by auto
  have a4: "\<exists>headerData g'.
      encodeHeader 4096 7 (replicate 16 1) (replicate 16 2) False (replicate 32 3) ?g
        = Inr ((headerData, 1), g') \<and>
      length headerData = 12288 \<and> take 4 (drop 80 headerData) = [0, 0, 0, 1]"
    using encodeHeader_headerHeight [OF w(4) l k(1), where ht = 7 and src = "\<lambda>i. of_nat i",
        unfolded header_heights e HEADERHEIGHT_INDEX_def]
    by auto
  from encodeHeader_headerHeight [OF w(5) l k(1), where ht = 7 and src = "\<lambda>i. of_nat i"]
  obtain e where
    t: "encodeHeader 21846 7 (replicate 16 1) (replicate 16 2) False (replicate 32 3) ?g = Inl e"
    by auto
  have "refuses ?g (nat \<lceil>(92 :: rat) / of_nat (3 * 21846)\<rceil> * (3 * 21846))"
    by (rule browser_refuses) simp
  then have "encodeHeader 21846 7 (replicate 16 1) (replicate 16 2) False (replicate 32 3) ?g
               = Inl QuotaExceededError"
    by (intro encodeHeader_refused [where key = "replicate 32 3" and ?g1.0 = ?g]) simp_all
  with t have a5: "encodeHeader 21846 7 (replicate 16 1) (replicate 16 2) False (replicate 32 3) ?g
               = Inl QuotaExceededError"
    by simp
  from a1 a2 a3 a4 a5 show ?thesis by (intro conjI)
qed

text \<open>
  C3. With \<open>usePassword\<close> set, the result of \<open>encodeHeader\<close> does not depend on the
  \<open>keyBytes\<close> argument: two calls that differ in it only return the same header (or
  throw the same exception), and the 32 bytes of the key slot (offset 48) are the next
  32 bytes of the random source. With \<open>usePassword\<close> clear, the key slot holds the
  \<open>keyBytes\<close> argument itself. (Fields of their fixed sizes, \<open>wd \<ge> 1\<close> and a random
  source that serves the requests, for the two statements about the key slot.)
\<close>

theorem encodeHeader_key_slot:
  "encodeHeader wd ht nonce tg True kb1 g = encodeHeader wd ht nonce tg True kb2 g \<and>
   (1 \<le> wd \<and> length nonce = IV_LENGTH \<and> length tg = TAG_LENGTH \<and>
    \<not> refuses g KEY_LENGTH \<and>
    \<not> refuses g (nat \<lceil>(92 :: rat) / of_nat (3 * wd)\<rceil> * (3 * wd)) \<longrightarrow>
      (\<exists>headerData hh g'.
         encodeHeader wd ht nonce tg True kb1 g = Inr ((headerData, hh), g') \<and>
         take KEY_LENGTH (drop 48 headerData) = map (source g) [0..<KEY_LENGTH])) \<and>
   (1 \<le> wd \<and> length nonce = IV_LENGTH \<and> length tg = TAG_LENGTH \<and>
    length kb = KEY_LENGTH \<and>
    \<not> refuses g (nat \<lceil>(92 :: rat) / of_nat (3 * wd)\<rceil> * (3 * wd)) \<longrightarrow>
      (\<exists>headerData hh g'.
         encodeHeader wd ht nonce tg False kb g = Inr ((headerData, hh), g') \<and>
         take KEY_LENGTH (drop 48 headerData) = kb))"
proof (intro conjI impI)
  show "encodeHeader wd ht nonce tg True kb1 g = encodeHeader wd ht nonce tg True kb2 g"
    by (simp add: encodeHeader_def)
next
  define hh where "hh = nat \<lceil>(92 :: rat) / of_nat (3 * wd)\<rceil>"
  assume a: "1 \<le> wd \<and> length nonce = IV_LENGTH \<and> length tg = TAG_LENGTH \<and>
    \<not> refuses g KEY_LENGTH \<and> \<not> refuses g (nat \<lceil>(92 :: rat) / of_nat (3 * wd)\<rceil> * (3 * wd))"
  then have w0: "0 < wd" and l: "length nonce = 16" "length tg = 16"
    by (simp_all add: IV_LENGTH_def TAG_LENGTH_def)
  define decoy where "decoy = map (source g) [0..<KEY_LENGTH]"
  define g1 where "g1 = g\<lparr>source := (\<lambda>i. source g (i + KEY_LENGTH))\<rparr>"
  have d: "getRandomValues KEY_LENGTH g = Inr (decoy, g1)"
    using a by (simp add: getRandomValues_def decoy_def g1_def)
  have "\<not> refuses g1 (hh * (3 * wd))" using a by (simp add: g1_def hh_def)
  then obtain rnd g2 where rnd: "getRandomValues (hh * (3 * wd)) g1 = Inr (rnd, g2)"
    using getRandomValues_served by blast
  have k: "if True then getRandomValues KEY_LENGTH g = Inr (decoy, g1)
           else decoy = kb1 \<and> g1 = g \<and> length kb1 = 32"
    using d by simp
  have ld: "length decoy = 32" by (simp add: decoy_def KEY_LENGTH_def)
  have "encodeHeader wd ht nonce tg True kb1 g =
      Inr ((header_block True wd ht nonce tg decoy hh @ drop 92 rnd, hh), g2)"
    using w0 l k hh_def rnd by (rule encodeHeader_ok)
  moreover have "take KEY_LENGTH (drop 48 (header_block True wd ht nonce tg decoy hh @ drop 92 rnd)) = decoy"
    unfolding KEY_LENGTH_def using l ld by (rule header_block_key)
  ultimately show "\<exists>headerData hh g'.
         encodeHeader wd ht nonce tg True kb1 g = Inr ((headerData, hh), g') \<and>
         take KEY_LENGTH (drop 48 headerData) = map (source g) [0..<KEY_LENGTH]"
    unfolding decoy_def by blast
next
  define hh where "hh = nat \<lceil>(92 :: rat) / of_nat (3 * wd)\<rceil>"
  assume a: "1 \<le> wd \<and> length nonce = IV_LENGTH \<and> length tg = TAG_LENGTH \<and>
    length kb = KEY_LENGTH \<and> \<not> refuses g (nat \<lceil>(92 :: rat) / of_nat (3 * wd)\<rceil> * (3 * wd))"
  then have w0: "0 < wd" and l: "length nonce = 16" "length tg = 16" and lk: "length kb = 32"
    by (simp_all add: IV_LENGTH_def TAG_LENGTH_def KEY_LENGTH_def)
  from a obtain rnd g2 where rnd: "getRandomValues (hh * (3 * wd)) g = Inr (rnd, g2)"
    using getRandomValues_served unfolding hh_def by blast
  have k: "if False then getRandomValues KEY_LENGTH g = Inr (kb, g)
           else kb = kb \<and> g = g \<and> length kb = 32"
    using lk by simp
  have "encodeHeader wd ht nonce tg False kb g =
      Inr ((header_block False wd ht nonce tg kb hh @ drop 92 rnd, hh), g2)"
    using w0 l k hh_def rnd by (rule encodeHeader_ok)
  moreover have "take KEY_LENGTH (drop 48 (header_block False wd ht nonce tg kb hh @ drop 92 rnd)) = kb"
    unfolding KEY_LENGTH_def using l lk by (rule header_block_key)
  ultimately show "\<exists>headerData hh g'.
         encodeHeader wd ht nonce tg False kb g = Inr ((headerData, hh), g') \<and>
         take KEY_LENGTH (drop 48 headerData) = kb"
    by blast
qed

theorem encodeHeader_key_slot_witness:
  "(1 :: nat) \<le> 10 \<and>
   length (replicate 16 (1 :: byte)) = IV_LENGTH \<and>
   length (replicate 16 (2 :: byte)) = TAG_LENGTH \<and>
   length (replicate 32 (3 :: byte)) = KEY_LENGTH \<and>
   \<not> refuses example_rng KEY_LENGTH \<and>
   \<not> refuses example_rng (nat \<lceil>(92 :: rat) / of_nat (3 * 10)\<rceil> * (3 * 10)) \<and>
   encodeHeader 10 7 (replicate 16 1) (replicate 16 2) True (replicate 32 3) example_rng =
   encodeHeader 10 7 (replicate 16 1) (replicate 16 2) True (replicate 32 4) example_rng \<and>
   (case encodeHeader 10 7 (replicate 16 1) (replicate 16 2) True (replicate 32 3) example_rng of
      Inl e \<Rightarrow> False
    | Inr ((headerData, hh), g') \<Rightarrow> take 32 (drop 48 headerData) = replicate 32 9) \<and>
   (case encodeHeader 10 7 (replicate 16 1) (replicate 16 2) False (replicate 32 3) example_rng of
      Inl e \<Rightarrow> False
    | Inr ((headerData, hh), g') \<Rightarrow> take 32 (drop 48 headerData) = replicate 32 3)"
proof -
  have "\<lceil>(92 :: rat) / of_nat (3 * 10)\<rceil> = 4" by (rule ceiling_unique) simp_all
  then have c: "nat \<lceil>(92 :: rat) / of_nat (3 * 10)\<rceil> = 4" by (simp only: nat_numeral)
  have h: "(1 :: nat) \<le> 10" "length (replicate 16 (1 :: byte)) = IV_LENGTH"
    "length (replicate 16 (2 :: byte)) = TAG_LENGTH" "length (replicate 32 (3 :: byte)) = KEY_LENGTH"
    "\<not> refuses example_rng KEY_LENGTH"
    "\<not> refuses example_rng (nat \<lceil>(92 :: rat) / of_nat (3 * 10)\<rceil> * (3 * 10))"
    unfolding c
    by (simp_all add: IV_LENGTH_def TAG_LENGTH_def KEY_LENGTH_def example_rng_def browser_rng_def)
  note t = encodeHeader_key_slot [where wd = 10 and ht = 7 and nonce = "replicate 16 1"
      and tg = "replicate 16 2" and ?kb1.0 = "replicate 32 3" and ?kb2.0 = "replicate 32 4"
      and g = example_rng and kb = "replicate 32 3"]
  have s: "map (source example_rng) [0..<KEY_LENGTH] = replicate 32 9"
    by (simp add: example_rng_def browser_rng_def KEY_LENGTH_def map_replicate_const)
  from t h obtain d1 hh1 g1 where
    e1: "encodeHeader 10 7 (replicate 16 1) (replicate 16 2) True (replicate 32 3) example_rng
           = Inr ((d1, hh1), g1)"
    and k1: "take KEY_LENGTH (drop 48 d1) = map (source example_rng) [0..<KEY_LENGTH]"
    by blast
  from t h obtain d2 hh2 g2 where
    e2: "encodeHeader 10 7 (replicate 16 1) (replicate 16 2) False (replicate 32 3) example_rng
           = Inr ((d2, hh2), g2)"
    and k2: "take KEY_LENGTH (drop 48 d2) = replicate 32 3"
    by blast
  from t have eq: "encodeHeader 10 7 (replicate 16 1) (replicate 16 2) True (replicate 32 3) example_rng =
   encodeHeader 10 7 (replicate 16 1) (replicate 16 2) True (replicate 32 4) example_rng"
    by blast
  have c1: "case encodeHeader 10 7 (replicate 16 1) (replicate 16 2) True (replicate 32 3) example_rng of
      Inl e \<Rightarrow> False
    | Inr ((headerData, hh), g') \<Rightarrow> take 32 (drop 48 headerData) = replicate 32 9"
    unfolding e1 using k1 s by (simp add: KEY_LENGTH_def)
  have c2: "case encodeHeader 10 7 (replicate 16 1) (replicate 16 2) False (replicate 32 3) example_rng of
      Inl e \<Rightarrow> False
    | Inr ((headerData, hh), g') \<Rightarrow> take 32 (drop 48 headerData) = replicate 32 3"
    unfolding e2 using k2 by (simp add: KEY_LENGTH_def)
  from h eq c1 c2 show ?thesis by blast
qed


text \<open>
  C5. Header decoding fails on a wrong identifier and, separately, on a wrong version.
  The identifier is compared by \<open>verifyIdentifier\<close>, which \<open>decrypt\<close> calls on the
  decoded pixels right before \<open>decodeHeader\<close>: when the first 5 bytes are not the magic
  constant it returns false and \<open>decrypt\<close> ends with a DecodingError. \<open>decodeHeader\<close>
  compares the version: when byte 5 is missing or is not 3 it returns \<open>None\<close> (null),
  whatever the other bytes are, and \<open>decrypt\<close> ends with a DecodingError.
\<close>

theorem header_magic_version_rejected:
  "(take 5 d \<noteq> SMZZL_IDENTIFIER \<longrightarrow>
      \<not> verifyIdentifier d \<and>
      (getImageDataPNG c b = Some (cty, a1, a2, d) \<longrightarrow>
         decrypt c (FileOrBlob b) pw = failure (DecodingError ''signiture not found''))) \<and>
   (aget d 5 \<noteq> Some 0x03 \<longrightarrow>
      decodeHeader d = None \<and>
      (getImageDataPNG c b = Some (cty, a1, a2, d) \<and> verifyIdentifier d \<longrightarrow>
         decrypt c (FileOrBlob b) pw = failure (DecodingError ''invalid header'')))"
  by (auto simp: verifyIdentifier_iff decodeHeader_version decrypt_def)

theorem header_magic_version_rejected_witness:
  "take 5 [0, 0, 0, 0, 0, 3 :: byte] \<noteq> SMZZL_IDENTIFIER \<and>
   \<not> verifyIdentifier [0, 0, 0, 0, 0, 3] \<and>
   getImageDataPNG example_collab
     \<lparr>width = Some 2, height = Some 1, depth = 8, colorType = TRUE_COLOR, data = [0, 0, 0, 0, 0, 3]\<rparr>
     = Some (TRUE_COLOR, Some 2, Some 1, [0, 0, 0, 0, 0, 3]) \<and>
   decrypt example_collab
     (FileOrBlob \<lparr>width = Some 2, height = Some 1, depth = 8, colorType = TRUE_COLOR,
                  data = [0, 0, 0, 0, 0, 3]\<rparr>) (PwString [])
     = failure (DecodingError ''signiture not found'') \<and>
   aget [0x53, 0x4d, 0x5a, 0x5a, 0x4c, 2 :: byte] 5 \<noteq> Some 0x03 \<and>
   decodeHeader [0x53, 0x4d, 0x5a, 0x5a, 0x4c, 2] = None \<and>
   verifyIdentifier [0x53, 0x4d, 0x5a, 0x5a, 0x4c, 2] \<and>
   getImageDataPNG example_collab
     \<lparr>width = Some 2, height = Some 1, depth = 8, colorType = TRUE_COLOR,
        data = [0x53, 0x4d, 0x5a, 0x5a, 0x4c, 2]\<rparr>
     = Some (TRUE_COLOR, Some 2, Some 1, [0x53, 0x4d, 0x5a, 0x5a, 0x4c, 2]) \<and>
   decrypt example_collab
     (FileOrBlob \<lparr>width = Some 2, height = Some 1, depth = 8, colorType = TRUE_COLOR,
                  data = [0x53, 0x4d, 0x5a, 0x5a, 0x4c, 2]\<rparr>) (PwString [])
     = failure (DecodingError ''invalid header'')"
proof -
  let ?bad = "[0, 0, 0, 0, 0, 3 :: byte]" and ?old = "[0x53, 0x4d, 0x5a, 0x5a, 0x4c, 2 :: byte]"
  let ?f1 = "\<lparr>width = Some 2, height = Some 1, depth = 8, colorType = TRUE_COLOR,
        data = [0, 0, 0, 0, 0, 3]\<rparr>"
  let ?f2 = "\<lparr>width = Some 2, height = Some 1, depth = 8, colorType = TRUE_COLOR,
        data = [0x53, 0x4d, 0x5a, 0x5a, 0x4c, 2]\<rparr>"
  have m: "take 5 ?bad \<noteq> SMZZL_IDENTIFIER" by (simp add: SMZZL_IDENTIFIER_def)
  have v: "aget ?old 5 \<noteq> Some 0x03" by (simp add: aget_def)
  have ok: "verifyIdentifier ?old" by (simp add: verifyIdentifier_iff SMZZL_IDENTIFIER_def)
  have g1: "getImageDataPNG example_collab ?f1 = Some (TRUE_COLOR, Some 2, Some 1, ?bad)"
    by (simp add: getImageDataPNG_def example_collab_def clamp8_def)
  have g2: "getImageDataPNG example_collab ?f2 = Some (TRUE_COLOR, Some 2, Some 1, ?old)"
    by (simp add: getImageDataPNG_def example_collab_def clamp8_def)
  from header_magic_version_rejected [where d = ?bad and c = example_collab and b = ?f1
      and cty = TRUE_COLOR and ?a1.0 = "Some 2" and ?a2.0 = "Some 1" and pw = "PwString []"]
    m g1
  have r1: "\<not> verifyIdentifier ?bad"
    "decrypt example_collab (FileOrBlob ?f1) (PwString []) = failure (DecodingError ''signiture not found'')"
    by blast+
  from header_magic_version_rejected [where d = ?old and c = example_collab and b = ?f2
      and cty = TRUE_COLOR and ?a1.0 = "Some 2" and ?a2.0 = "Some 1" and pw = "PwString []"]
    v g2 ok
  have r2: "decodeHeader ?old = None"
    "decrypt example_collab (FileOrBlob ?f2) (PwString []) = failure (DecodingError ''invalid header'')"
    by blast+
  from m v ok g1 g2 r1 r2 show ?thesis by blast
qed


text \<open>
  C6 does not hold of the code: \<open>readForward\<close> reads with \<^verbatim>\<open>subarray\<close>, which clamps to
  the buffer and never throws, so the \<^verbatim>\<open>catch\<close> of \<open>decodeHeader\<close> is never reached. On
  the 6-byte buffer that holds only the identifier and the version, \<open>decodeHeader\<close>
  returns a header with empty \<open>iv\<close>, \<open>tag\<close> and \<open>keyBytes\<close> and NaN numbers.
\<close>

theorem decodeHeader_short_buffer:
  "decodeHeader [0x53, 0x4d, 0x5a, 0x5a, 0x4c, 0x03] =
     Some \<lparr>signiture = [0x53, 0x4d, 0x5a, 0x5a, 0x4c], version = 3, usePassword = False,
            w = None, h = None, iv = [], tag = [], keyBytes = [],
            headerHeight = None, footerHeight = None, areaDataLength = None\<rparr>"
  by code_simp


section \<open>Claims about the pipeline\<close>

text \<open>
  C1. Let an image of width \<open>wd \<ge> 1\<close> and height \<open>ht \<ge> 1\<close> (below \<open>2 ^ 32\<close>) have the
  RGBA bytes \<open>px\<close>; it is an image element, or a file that the loader reads. The
  collaborators do their work: the digest returns 32 bytes, a 32-byte key is imported,
  the AEAD encrypts every plaintext, AEAD decryption inverts AEAD encryption under the
  same key, nonce and tag (the output being the ciphertext followed by the 16-byte
  tag), the PNG encoder accepts every 8-bit RGBA picture, and PNG decoding inverts PNG
  encoding. The random source is a browser's. Then, for a width of at most 21845,
  \<open>encrypt\<close> with the password string \<open>s\<close> (empty for the random-key mode, non-empty
  for the password mode) returns a container, and \<open>decrypt\<close> of that container with the
  same \<open>s\<close> succeeds: its output is the PNG file of the original width and height whose
  RGBA bytes are \<open>toRGBA (toRGB px)\<close>, every R, G and B byte of the original and 255 at
  every alpha position. C1 does not hold of the code for a wider image: \<open>encrypt\<close>
  throws, since \<open>encodeHeader\<close> asks \<^verbatim>\<open>getRandomValues\<close> for a whole header row, more than
  65536 bytes, outside any \<^verbatim>\<open>try\<close>.
\<close>

theorem decrypt_encrypt_roundtrip:
  assumes dims: "1 \<le> wd" "1 \<le> ht" "ht < 2 ^ 32" "length px = 4 * wd * ht"
    and img: "img = ImageElement wd ht px \<or>
              (\<exists>b. img = FileOrBlob b \<and> loadImage c b = Some (wd, ht, px))"
    and hash: "\<forall>bs. \<exists>d. digest c bs = Some d \<and> length d = 32"
    and keys: "\<forall>kb. length kb = KEY_LENGTH \<longrightarrow> importKey c kb \<noteq> None"
    and aead_total: "\<forall>k n p. aead_encrypt c k n (TAG_LENGTH * 8) p \<noteq> None"
    and aead_inv: "\<forall>k n p x. aead_encrypt c k n (TAG_LENGTH * 8) p = Some x \<longrightarrow>
                     aead_decrypt c k n (TAG_LENGTH * 8) x = Some p \<and>
                     length x = length p + TAG_LENGTH"
    and png_total: "\<forall>w h (d :: byte list). 1 \<le> w \<and> 1 \<le> h \<and> length d = 4 * w * h \<longrightarrow>
                      png_encode c \<lparr>width = Some w, height = Some h, depth = 8,
                                      colorType = TRUE_COLOR_WITH_ALPHA, data = map unat d\<rparr> \<noteq> None"
    and png_inv: "\<forall>m b. png_encode c m = Some b \<longrightarrow> png_decode c b = Some m"
  shows "(wd \<le> 21845 \<longrightarrow>
           (\<exists>container original.
              encrypt c img (PwString s) (browser_rng src) = success container \<and>
              decrypt c (FileOrBlob container) (PwString s) = success original \<and>
              png_decode c original =
                Some \<lparr>width = Some wd, height = Some ht, depth = 8,
                       colorType = TRUE_COLOR_WITH_ALPHA,
                       data = map unat (toRGBA (toRGB px))\<rparr>)) \<and>
         length (toRGBA (toRGB px)) = length px \<and>
         (\<forall>i < length px. toRGBA (toRGB px) ! i = (if i mod 4 = 3 then 255 else px ! i)) \<and>
         (21845 < wd \<longrightarrow> (\<exists>e. encrypt c img (PwString s) (browser_rng src) = Threw e))"
proof -
  let ?g = "browser_rng src"
  let ?pw = "PwString s"
  from img have cv: "getImageDataCanvas c img = Inr (wd, ht, px)" by (rule canvas_image)
  from dims(1) have w0: "0 < wd" by simp
  have al: "\<forall>k n p x. aead_encrypt c k n (TAG_LENGTH * 8) p = Some x \<longrightarrow>
              length x = length p + TAG_LENGTH"
    using aead_inv by blast
  have h: "nonempty_string ?pw \<longrightarrow>
             (\<exists>d. digest c (textEncode c (pw_string ?pw)) = Some d \<and> length d = 32)"
    using hash by blast
  note eb = encrypt_browser [OF cv w0 dims(4) h keys aead_total al png_total, of src]
  have "4 dvd length px" using dims(4) by (simp add: mult.assoc)
  then have px: "length (toRGBA (toRGB px)) = length px \<and>
         (\<forall>i < length px. toRGBA (toRGB px) ! i = (if i mod 4 = 3 then 255 else px ! i))"
    by (rule toRGBA_toRGB_nth)
  have a: "\<exists>container original.
              encrypt c img ?pw ?g = success container \<and>
              decrypt c (FileOrBlob container) ?pw = success original \<and>
              png_decode c original =
                Some \<lparr>width = Some wd, height = Some ht, depth = 8,
                       colorType = TRUE_COLOR_WITH_ALPHA,
                       data = map unat (toRGBA (toRGB px))\<rparr>"
    if small: "wd \<le> 21845"
  proof -
    from eb small obtain container where e: "encrypt c img ?pw ?g = success container"
      by blast
    have l4: "length (toRGBA (toRGB px)) = 4 * wd * ht" using px dims(4) by simp
    have "png_encode c \<lparr>width = Some wd, height = Some ht, depth = 8,
                          colorType = TRUE_COLOR_WITH_ALPHA,
                          data = map unat (toRGBA (toRGB px))\<rparr> \<noteq> None"
      by (rule png_total [THEN spec [where x = wd], THEN spec [where x = ht],
            THEN spec [where x = "toRGBA (toRGB px)"], THEN mp])
        (simp only: dims l4 simp_thms)
    then obtain original where
      ok: "png_encode c \<lparr>width = Some wd, height = Some ht, depth = 8,
                           colorType = TRUE_COLOR_WITH_ALPHA,
                           data = map unat (toRGBA (toRGB px))\<rparr> = Some original"
      by blast
    from small have wb: "wd < 2 ^ 32" by simp
    have same: "?pw = ?pw \<or> \<not> nonempty_string ?pw" by simp
    from wb dims(3,4) cv e same png_inv aead_inv ok
    have "decrypt c (FileOrBlob container) ?pw = success original"
      by (rule container_decrypts)
    moreover have "png_decode c original =
                Some \<lparr>width = Some wd, height = Some ht, depth = 8,
                       colorType = TRUE_COLOR_WITH_ALPHA,
                       data = map unat (toRGBA (toRGB px))\<rparr>"
      using png_inv ok by blast
    ultimately show ?thesis using e by blast
  qed
  have b: "\<exists>e. encrypt c img ?pw ?g = Threw e" if "21845 < wd"
    using eb that by blast
  from a b px show ?thesis by blast
qed

theorem decrypt_encrypt_roundtrip_witness:
  "(\<exists>container.
      encrypt sample_collab (ImageElement 2 1 [1, 2, 3, 4, 5, 6, 7, 8]) (PwString ''a'')
        (browser_rng (\<lambda>i. of_nat i)) = success container \<and>
      decrypt sample_collab (FileOrBlob container) (PwString ''a'') =
        success \<lparr>width = Some 2, height = Some 1, depth = 8,
                  colorType = TRUE_COLOR_WITH_ALPHA, data = [1, 2, 3, 255, 5, 6, 7, 255]\<rparr>) \<and>
   (\<exists>container.
      encrypt sample_collab (ImageElement 2 1 [1, 2, 3, 4, 5, 6, 7, 8]) (PwString [])
        (browser_rng (\<lambda>i. of_nat i)) = success container \<and>
      decrypt sample_collab (FileOrBlob container) (PwString []) =
        success \<lparr>width = Some 2, height = Some 1, depth = 8,
                  colorType = TRUE_COLOR_WITH_ALPHA, data = [1, 2, 3, 255, 5, 6, 7, 255]\<rparr>) \<and>
   encrypt sample_collab (ImageElement 21846 1 (replicate 87384 0)) (PwString ''a'')
     (browser_rng (\<lambda>i. of_nat i)) = Threw QuotaExceededError"
proof -
  let ?g = "browser_rng (\<lambda>i. of_nat i)"
  let ?px = "[1, 2, 3, 4, 5, 6, 7, 8] :: byte list"
  have dims: "(1 :: nat) \<le> 2" "(1 :: nat) \<le> 1" "(1 :: nat) < 2 ^ 32" "length ?px = 4 * 2 * 1"
    by simp_all
  have img: "ImageElement 2 1 ?px = ImageElement 2 1 ?px \<or>
             (\<exists>b. ImageElement 2 1 ?px = FileOrBlob b \<and> loadImage sample_collab b = Some (2, 1, ?px))"
    by simp
  have small: "\<exists>container.
      encrypt sample_collab (ImageElement 2 1 ?px) (PwString s) ?g = success container \<and>
      decrypt sample_collab (FileOrBlob container) (PwString s) =
        success \<lparr>width = Some 2, height = Some 1, depth = 8,
                  colorType = TRUE_COLOR_WITH_ALPHA, data = [1, 2, 3, 255, 5, 6, 7, 255]\<rparr>" for s
  proof -
    from decrypt_encrypt_roundtrip [OF dims img sample_hash sample_keys sample_aead_total
        sample_aead_inv sample_png_total sample_png_inv, of s "\<lambda>i. of_nat i"]
    obtain container original where
      e: "encrypt sample_collab (ImageElement 2 1 ?px) (PwString s) ?g = success container"
      and d: "decrypt sample_collab (FileOrBlob container) (PwString s) = success original"
      and p: "png_decode sample_collab original =
                Some \<lparr>width = Some 2, height = Some 1, depth = 8,
                       colorType = TRUE_COLOR_WITH_ALPHA,
                       data = map unat (toRGBA (toRGB ?px))\<rparr>"
      by auto
    from p have "original = \<lparr>width = Some 2, height = Some 1, depth = 8,
                  colorType = TRUE_COLOR_WITH_ALPHA, data = [1, 2, 3, 255, 5, 6, 7, 255]\<rparr>"
      by (simp add: sample_collab_def sample_pixels)
    with e d show ?thesis by blast
  qed
  have dimw: "(1 :: nat) \<le> 21846" "(1 :: nat) \<le> 1" "(1 :: nat) < 2 ^ 32"
    "length (replicate 87384 (0 :: byte)) = 4 * 21846 * 1"
    by simp_all
  have imgw: "ImageElement 21846 1 (replicate 87384 0) = ImageElement 21846 1 (replicate 87384 0) \<or>
             (\<exists>b. ImageElement 21846 1 (replicate 87384 0) = FileOrBlob b \<and>
                  loadImage sample_collab b = Some (21846, 1, replicate 87384 0))"
    by simp
  from decrypt_encrypt_roundtrip [OF dimw imgw sample_hash sample_keys sample_aead_total
        sample_aead_inv sample_png_total sample_png_inv, of "''a''" "\<lambda>i. of_nat i"]
  obtain e where
    t: "encrypt sample_collab (ImageElement 21846 1 (replicate 87384 0)) (PwString ''a'') ?g
          = Threw e"
    by auto
  have al: "\<forall>k n p x. aead_encrypt sample_collab k n (TAG_LENGTH * 8) p = Some x \<longrightarrow>
              length x = length p + TAG_LENGTH"
    using sample_aead_inv by blast
  have "encrypt sample_collab (ImageElement 21846 1 (replicate 87384 0)) (PwString ''a'') ?g
          = Threw QuotaExceededError"
    using encrypt_browser [OF canvas_image [OF imgw] _ dimw(4) _ sample_keys sample_aead_total al
        sample_png_total, of "PwString ''a''" "\<lambda>i. of_nat i"] sample_hash
    by simp
  with t have wide: "encrypt sample_collab (ImageElement 21846 1 (replicate 87384 0))
                       (PwString ''a'') ?g = Threw QuotaExceededError"
    by simp
  from small [of "''a''"] small [of "[]"] wide show ?thesis by (intro conjI)
qed





text \<open>
  C10. When \<open>pw\<close> is not a string or is the empty string, \<open>encrypt\<close> works in random-key
  mode. For an image at most 21845 pixels wide (and collaborators and random source as
  for C1) it returns a container: the key is the next 32 bytes of the random source,
  the two flag bytes of the container's header are zero (the password flag, bit 15, is
  clear), the key slot and the decoded header hold that key, and \<open>decrypt\<close> of the
  container with the empty password returns the original picture. C10 does not hold of
  the code for a wider image, where \<open>encrypt\<close> throws as for C1.
\<close>

theorem encrypt_without_password:
  assumes nopw: "pw = PwOther \<or> pw = PwString []"
    and dims: "1 \<le> wd" "1 \<le> ht" "ht < 2 ^ 32" "length px = 4 * wd * ht"
    and img: "img = ImageElement wd ht px \<or>
              (\<exists>b. img = FileOrBlob b \<and> loadImage c b = Some (wd, ht, px))"
    and keys: "\<forall>kb. length kb = KEY_LENGTH \<longrightarrow> importKey c kb \<noteq> None"
    and aead_total: "\<forall>k n p. aead_encrypt c k n (TAG_LENGTH * 8) p \<noteq> None"
    and aead_inv: "\<forall>k n p x. aead_encrypt c k n (TAG_LENGTH * 8) p = Some x \<longrightarrow>
                     aead_decrypt c k n (TAG_LENGTH * 8) x = Some p \<and>
                     length x = length p + TAG_LENGTH"
    and png_total: "\<forall>w h (d :: byte list). 1 \<le> w \<and> 1 \<le> h \<and> length d = 4 * w * h \<longrightarrow>
                      png_encode c \<lparr>width = Some w, height = Some h, depth = 8,
                                      colorType = TRUE_COLOR_WITH_ALPHA, data = map unat d\<rparr> \<noteq> None"
    and png_inv: "\<forall>m b. png_encode c m = Some b \<longrightarrow> png_decode c b = Some m"
  shows "(wd \<le> 21845 \<longrightarrow>
           (\<exists>container key g1 cty a1 a2 rgb hdr original.
              encrypt c img pw (browser_rng src) = success container \<and>
              getRandomValues KEY_LENGTH (browser_rng src) = Inr (key, g1) \<and>
              key = map src [0..<KEY_LENGTH] \<and>
              getImageDataPNG c container = Some (cty, a1, a2, rgb) \<and>
              take FLAG_LENGTH (drop 6 rgb) = [0, 0] \<and>
              take KEY_LENGTH (drop 48 rgb) = key \<and>
              decodeHeader rgb = Some hdr \<and> \<not> usePassword hdr \<and> keyBytes hdr = key \<and>
              decrypt c (FileOrBlob container) (PwString []) = success original \<and>
              png_decode c original =
                Some \<lparr>width = Some wd, height = Some ht, depth = 8,
                       colorType = TRUE_COLOR_WITH_ALPHA,
                       data = map unat (toRGBA (toRGB px))\<rparr>)) \<and>
         (21845 < wd \<longrightarrow> (\<exists>e. encrypt c img pw (browser_rng src) = Threw e))"
proof -
  let ?g = "browser_rng src"
  from nopw have np: "\<not> nonempty_string pw" by (auto simp: nonempty_string_def)
  from img have cv: "getImageDataCanvas c img = Inr (wd, ht, px)" by (rule canvas_image)
  from dims(1) have w0: "0 < wd" by simp
  have al: "\<forall>k n p x. aead_encrypt c k n (TAG_LENGTH * 8) p = Some x \<longrightarrow>
              length x = length p + TAG_LENGTH"
    using aead_inv by blast
  have h: "nonempty_string pw \<longrightarrow>
             (\<exists>d. digest c (textEncode c (pw_string pw)) = Some d \<and> length d = 32)"
    using np by simp
  note eb = encrypt_browser [OF cv w0 dims(4) h keys aead_total al png_total, of src]
  have a: "\<exists>container key g1 cty a1 a2 rgb hdr original.
              encrypt c img pw ?g = success container \<and>
              getRandomValues KEY_LENGTH ?g = Inr (key, g1) \<and>
              key = map src [0..<KEY_LENGTH] \<and>
              getImageDataPNG c container = Some (cty, a1, a2, rgb) \<and>
              take FLAG_LENGTH (drop 6 rgb) = [0, 0] \<and>
              take KEY_LENGTH (drop 48 rgb) = key \<and>
              decodeHeader rgb = Some hdr \<and> \<not> usePassword hdr \<and> keyBytes hdr = key \<and>
              decrypt c (FileOrBlob container) (PwString []) = success original \<and>
              png_decode c original =
                Some \<lparr>width = Some wd, height = Some ht, depth = 8,
                       colorType = TRUE_COLOR_WITH_ALPHA,
                       data = map unat (toRGBA (toRGB px))\<rparr>"
    if small: "wd \<le> 21845"
  proof -
    from eb small obtain container where enc: "encrypt c img pw ?g = success container"
      by blast
    from small have wb: "wd < 2 ^ 32" by simp
    from dims(4) cv enc al png_inv
    obtain kb g1 key nonce ct g2 stored pad hh where
      k: "encryptKey c pw ?g = Inr (kb, g1)"
      and ln: "length nonce = 16" and lc: "length ct = 3 * wd * ht + 16" and ls: "length stored = 32"
      and hh: "hh = nat \<lceil>(92 :: rat) / of_nat (3 * wd)\<rceil>" and lpad: "92 + length pad = hh * 3 * wd"
      and nk: "\<not> nonempty_string pw \<longrightarrow> stored = kb"
      and g: "getImageDataPNG c container =
         Some (TRUE_COLOR_WITH_ALPHA, Some wd, Some (ht + hh),
               header_block (nonempty_string pw) wd ht nonce (drop (3 * wd * ht) ct) stored hh @
               pad @ take (3 * wd * ht) ct)"
      by (rule encrypt_container)
    from nk np have st: "stored = kb" by simp
    define tg where "tg = drop (3 * wd * ht) ct"
    define rgb where "rgb = header_block False wd ht nonce tg kb hh @ pad @ take (3 * wd * ht) ct"
    have g': "getImageDataPNG c container = Some (TRUE_COLOR_WITH_ALPHA, Some wd, Some (ht + hh), rgb)"
      using g np by (simp add: rgb_def tg_def st)
    define hdr where "hdr = \<lparr>signiture = SMZZL_IDENTIFIER, version = 3, usePassword = False,
                    w = Some wd, h = Some ht, iv = nonce, tag = tg, keyBytes = kb,
                    headerHeight = Some hh, footerHeight = Some 0, areaDataLength = Some 0\<rparr>"
    have ltg: "length tg = 16" using lc by (simp add: tg_def)
    have lkb: "length kb = 32" using ls st by simp
    have hb: "hh < 2 ^ 32" using header_height_le [of wd] by (simp add: hh)
    have rk: "getRandomValues KEY_LENGTH ?g = Inr (kb, g1)"
      using k np by (auto simp: encryptKey_def split: sum.splits)
    then have kv: "kb = map src [0..<KEY_LENGTH]"
      by (auto simp: getRandomValues_def browser_rng_def split: if_splits)
    have fl: "take FLAG_LENGTH (drop 6 rgb) = [0, 0]"
      using header_block_flags [OF ln ltg lkb, of False wd ht hh "pad @ take (3 * wd * ht) ct"]
      by (simp add: rgb_def FLAG_LENGTH_def)
    have ks: "take KEY_LENGTH (drop 48 rgb) = kb"
      unfolding rgb_def KEY_LENGTH_def using ln ltg lkb by (rule header_block_key)
    have dh: "decodeHeader rgb = Some hdr"
      unfolding rgb_def hdr_def using ln ltg lkb wb dims(3) hb by (rule decodeHeader_block)
    have "4 dvd length px" using dims(4) by (simp add: mult.assoc)
    then have l4: "length (toRGBA (toRGB px)) = 4 * wd * ht"
      using toRGBA_toRGB_nth [of px] dims(4) by simp
    have "png_encode c \<lparr>width = Some wd, height = Some ht, depth = 8,
                          colorType = TRUE_COLOR_WITH_ALPHA,
                          data = map unat (toRGBA (toRGB px))\<rparr> \<noteq> None"
      by (rule png_total [THEN spec [where x = wd], THEN spec [where x = ht],
            THEN spec [where x = "toRGBA (toRGB px)"], THEN mp])
        (simp only: dims l4 simp_thms)
    then obtain original where
      ok: "png_encode c \<lparr>width = Some wd, height = Some ht, depth = 8,
                           colorType = TRUE_COLOR_WITH_ALPHA,
                           data = map unat (toRGBA (toRGB px))\<rparr> = Some original"
      by blast
    have same: "PwString [] = pw \<or> \<not> nonempty_string pw" using np by simp
    from wb dims(3,4) cv enc same png_inv aead_inv ok
    have dec: "decrypt c (FileOrBlob container) (PwString []) = success original"
      by (rule container_decrypts)
    have pd: "png_decode c original =
                Some \<lparr>width = Some wd, height = Some ht, depth = 8,
                       colorType = TRUE_COLOR_WITH_ALPHA,
                       data = map unat (toRGBA (toRGB px))\<rparr>"
      using png_inv ok by blast
    have hf: "\<not> usePassword hdr" "keyBytes hdr = kb" by (simp_all add: hdr_def)
    from enc rk kv g' fl ks dh hf dec pd show ?thesis by blast
  qed
  have b: "\<exists>e. encrypt c img pw ?g = Threw e" if "21845 < wd"
    using eb that by blast
  from a b show ?thesis by blast
qed

theorem encrypt_without_password_witness:
  "(\<exists>container cty a1 a2 rgb.
      encrypt sample_collab (ImageElement 2 1 [1, 2, 3, 4, 5, 6, 7, 8]) PwOther
        (browser_rng (\<lambda>i. of_nat i)) = success container \<and>
      getImageDataPNG sample_collab container = Some (cty, a1, a2, rgb) \<and>
      take 2 (drop 6 rgb) = [0, 0] \<and>
      take 32 (drop 48 rgb) = map (\<lambda>i. of_nat i) [0..<32] \<and>
      decrypt sample_collab (FileOrBlob container) (PwString []) =
        success \<lparr>width = Some 2, height = Some 1, depth = 8,
                  colorType = TRUE_COLOR_WITH_ALPHA, data = [1, 2, 3, 255, 5, 6, 7, 255]\<rparr>) \<and>
   (\<exists>container cty a1 a2 rgb.
      encrypt sample_collab (ImageElement 2 1 [1, 2, 3, 4, 5, 6, 7, 8]) (PwString [])
        (browser_rng (\<lambda>i. of_nat i)) = success container \<and>
      getImageDataPNG sample_collab container = Some (cty, a1, a2, rgb) \<and>
      take 2 (drop 6 rgb) = [0, 0] \<and>
      take 32 (drop 48 rgb) = map (\<lambda>i. of_nat i) [0..<32] \<and>
      decrypt sample_collab (FileOrBlob container) (PwString []) =
        success \<lparr>width = Some 2, height = Some 1, depth = 8,
                  colorType = TRUE_COLOR_WITH_ALPHA, data = [1, 2, 3, 255, 5, 6, 7, 255]\<rparr>) \<and>
   encrypt sample_collab (ImageElement 21846 1 (replicate 87384 0)) PwOther
        (browser_rng (\<lambda>i. of_nat i)) = Threw QuotaExceededError"
proof -
  let ?g = "browser_rng (\<lambda>i. of_nat i)"
  let ?px = "[1, 2, 3, 4, 5, 6, 7, 8] :: byte list"
  have dims: "(1 :: nat) \<le> 2" "(1 :: nat) \<le> 1" "(1 :: nat) < 2 ^ 32" "length ?px = 4 * 2 * 1"
    by simp_all
  have img: "ImageElement 2 1 ?px = ImageElement 2 1 ?px \<or>
             (\<exists>b. ImageElement 2 1 ?px = FileOrBlob b \<and> loadImage sample_collab b = Some (2, 1, ?px))"
    by simp
  have small: "\<exists>container cty a1 a2 rgb.
      encrypt sample_collab (ImageElement 2 1 ?px) pw ?g = success container \<and>
      getImageDataPNG sample_collab container = Some (cty, a1, a2, rgb) \<and>
      take 2 (drop 6 rgb) = [0, 0] \<and>
      take 32 (drop 48 rgb) = map (\<lambda>i. of_nat i) [0..<32] \<and>
      decrypt sample_collab (FileOrBlob container) (PwString []) =
        success \<lparr>width = Some 2, height = Some 1, depth = 8,
                  colorType = TRUE_COLOR_WITH_ALPHA, data = [1, 2, 3, 255, 5, 6, 7, 255]\<rparr>"
    if pw: "pw = PwOther \<or> pw = PwString []" for pw
  proof -
    from encrypt_without_password [OF pw dims img sample_keys sample_aead_total
        sample_aead_inv sample_png_total sample_png_inv, of "\<lambda>i. of_nat i"]
    obtain container key cty a1 a2 rgb original where
      e: "encrypt sample_collab (ImageElement 2 1 ?px) pw ?g = success container"
      and kv: "key = map (\<lambda>i. of_nat i) [0..<KEY_LENGTH]"
      and g: "getImageDataPNG sample_collab container = Some (cty, a1, a2, rgb)"
      and fl: "take FLAG_LENGTH (drop 6 rgb) = [0, 0]"
      and ks: "take KEY_LENGTH (drop 48 rgb) = key"
      and d: "decrypt sample_collab (FileOrBlob container) (PwString []) = success original"
      and p: "png_decode sample_collab original =
                Some \<lparr>width = Some 2, height = Some 1, depth = 8,
                       colorType = TRUE_COLOR_WITH_ALPHA,
                       data = map unat (toRGBA (toRGB ?px))\<rparr>"
      by auto
    from p have "original = \<lparr>width = Some 2, height = Some 1, depth = 8,
                  colorType = TRUE_COLOR_WITH_ALPHA, data = [1, 2, 3, 255, 5, 6, 7, 255]\<rparr>"
      by (simp add: sample_collab_def sample_pixels)
    with e kv g fl ks d show ?thesis
      unfolding FLAG_LENGTH_def KEY_LENGTH_def by blast
  qed
  have dimw: "(1 :: nat) \<le> 21846" "(1 :: nat) \<le> 1" "(1 :: nat) < 2 ^ 32"
    "length (replicate 87384 (0 :: byte)) = 4 * 21846 * 1"
    by simp_all
  have imgw: "ImageElement 21846 1 (replicate 87384 0) = ImageElement 21846 1 (replicate 87384 0) \<or>
             (\<exists>b. ImageElement 21846 1 (replicate 87384 0) = FileOrBlob b \<and>
                  loadImage sample_collab b = Some (21846, 1, replicate 87384 0))"
    by simp
  have other: "PwOther = PwOther \<or> PwOther = PwString []" by simp
  from encrypt_without_password [OF other dimw imgw sample_keys sample_aead_total
        sample_aead_inv sample_png_total sample_png_inv, of "\<lambda>i. of_nat i"]
  obtain e where
    t: "encrypt sample_collab (ImageElement 21846 1 (replicate 87384 0)) PwOther ?g = Threw e"
    by auto
  have al: "\<forall>k n p x. aead_encrypt sample_collab k n (TAG_LENGTH * 8) p = Some x \<longrightarrow>
              length x = length p + TAG_LENGTH"
    using sample_aead_inv by blast
  have q: "encrypt sample_collab (ImageElement 21846 1 (replicate 87384 0)) PwOther ?g
             = Threw QuotaExceededError"
    using encrypt_browser [OF canvas_image [OF imgw] _ dimw(4) _ sample_keys sample_aead_total al
        sample_png_total, of PwOther "\<lambda>i. of_nat i"]
    by (simp add: nonempty_string_def)
  from small [of PwOther] small [of "PwString []"] t q show ?thesis by simp
qed

text \<open>
  C7 does not hold of the code: for a value that is not an image, \<open>getImageDataCanvas\<close>
  throws a ReferenceError while building its error object, and \<open>encrypt\<close> calls it
  outside any \<^verbatim>\<open>try\<close>; \<open>decrypt\<close> of \<^verbatim>\<open>null\<close> throws a TypeError in the constructor
  of \<^verbatim>\<open>ImageTypeError\<close>, which reads \<^verbatim>\<open>image.type\<close>.
\<close>

theorem encrypt_exception_escapes:
  "encrypt c OtherValue pw g = Threw ReferenceError \<and>
   encrypt c Nullish pw g = Threw ReferenceError \<and>
   decrypt c Nullish pw = Threw TypeError"
  by (simp add: encrypt_def decrypt_def getImageDataCanvas_def)


end
